theory Spec2Isabelle
  imports Main "HOL-Library.Word"
begin

unbundle bit_operations_syntax

section \<open>flexiGIF: the LZW encoder, the bit reader and the LZW decoder\<close>

text \<open>
  Conventions of the embedding.
  \<^item> A byte (\<open>unsigned char\<close> of the literal stream) is an \<open>8 word\<close>.
  \<^item> Counters and positions (\<open>unsigned int\<close>) are naturals; every input is taken to be
    shorter than \<open>2 ^ 32\<close>, and the one place where the source relies on the unsigned
    wrap-around (\<open>lastPos = from + length - 1\<close> of an empty block) writes it out.
  \<^item> An LZW code is a natural; the sentinel \<open>Unknown = -1\<close> of the child tables is
    \<open>None\<close>.
  \<^item> A \<open>throw\<close> is \<open>Inl (Thrown msg)\<close> with the message of the source, a failed
    \<open>assert\<close> is \<open>Inl AssertFailed\<close>, an access outside a vector (undefined in C++) is
    \<open>Inl OutOfBounds\<close>, a division by zero is \<open>Inl DivisionByZero\<close>.
\<close>

type_synonym byte = "8 word"

datatype error = Thrown string | AssertFailed | OutOfBounds | DivisionByZero

subsection \<open>LzwEncoder: the dictionary\<close>

text \<open>
  \<open>m_dictionary[code][oneByte]\<close>: for each code the codes of its children. The source
  keeps \<open>m_maxDictionary\<close> tables of 256 entries; the model is a function and leaves the
  number of tables implicit.
\<close>

type_synonym dictionary = "nat \<Rightarrow> byte \<Rightarrow> nat option"

record BestBlock =
  length_best :: nat
  bits :: nat
  totalBits :: nat
  tokens :: nat
  nongreedy :: nat
  partial :: bool

record LzwEncoder =
  m_data :: "byte list"
  m_best :: "BestBlock list"
  m_dictionary :: dictionary
  m_dictSize :: nat
  m_maxDictionary :: nat
  m_maxCodeLength :: nat
  m_isGif :: bool

definition newBestBlock :: BestBlock where
  "newBestBlock = \<lparr>length_best = 0, bits = 0, totalBits = 0, tokens = 0, nongreedy = 0,
     partial = False\<rparr>"

text \<open>The constructor \<open>LzwEncoder(data, isGif)\<close>.\<close>

definition newLzwEncoder :: "byte list \<Rightarrow> bool \<Rightarrow> LzwEncoder" where
  "newLzwEncoder data isGif =
     \<lparr>m_data = data, m_best = [], m_dictionary = (\<lambda>c b. None), m_dictSize = 0,
      m_maxDictionary = 2 ^ (if isGif then 12 else 16) - 1,
      m_maxCodeLength = (if isGif then 12 else 16), m_isGif = isGif\<rparr>"

text \<open>
  \<open>addCode(from, length)\<close>. The loop walks the children along
  \<open>m_data[from + 1 .. from + length - 1]\<close>; a missing child leaves \<open>Unknown\<close> in
  \<open>code\<close>, and using it as an index afterwards is out of bounds.
\<close>

function addCode_loop ::
  "byte list \<Rightarrow> dictionary \<Rightarrow> nat option \<Rightarrow> nat \<Rightarrow> nat \<Rightarrow> nat \<Rightarrow> error + (nat option \<times> nat)"
where
  "addCode_loop data dict code from i len =
     (if i < len then
        (if from < length data then
           (case code of
              None \<Rightarrow> Inl OutOfBounds
            | Some c \<Rightarrow> addCode_loop data dict (dict c (data ! from)) (from + 1) (i + 1) len)
         else Inl OutOfBounds)
      else Inr (code, from))"
  by pat_completeness auto
termination
  by (relation "measure (\<lambda>(data, dict, code, from, i, len). len - i)") auto

declare addCode_loop.simps [simp del]

definition addCode :: "LzwEncoder \<Rightarrow> nat \<Rightarrow> nat \<Rightarrow> error + (nat option \<times> LzwEncoder)" where
  "addCode e from len =
     (if from < length (m_data e) then
        (case addCode_loop (m_data e) (m_dictionary e) (Some (unat (m_data e ! from)))
                (from + 1) 1 len of
           Inl err \<Rightarrow> Inl err
         | Inr (code, from') \<Rightarrow>
             (if from' < length (m_data e) then
                (if m_dictSize e < m_maxDictionary e then
                   (case code of
                      None \<Rightarrow> Inl OutOfBounds
                    | Some c \<Rightarrow>
                        (let lastByte = m_data e ! from';
                             dict' = (if m_dictionary e c lastByte = None
                                      then (m_dictionary e)(c := (m_dictionary e c)(lastByte \<mapsto> m_dictSize e))
                                      else m_dictionary e)
                         in Inr (code, e\<lparr>m_dictionary := dict', m_dictSize := m_dictSize e + 1\<rparr>)))
                 else Inr (code, e))
              else Inr (code, e)))
      else Inl OutOfBounds)"

text \<open>\<open>findMatch(from, maxLength)\<close>.\<close>

function findMatch_loop ::
  "byte list \<Rightarrow> dictionary \<Rightarrow> nat \<Rightarrow> nat \<Rightarrow> nat \<Rightarrow> nat \<Rightarrow> error + nat"
where
  "findMatch_loop data dict code from len maxLength =
     (if len < maxLength then
        (if from < length data then
           (case dict code (data ! from) of
              None \<Rightarrow> Inr len
            | Some c \<Rightarrow> findMatch_loop data dict c (from + 1) (len + 1) maxLength)
         else Inl OutOfBounds)
      else Inr maxLength)"
  by pat_completeness auto
termination
  by (relation "measure (\<lambda>(data, dict, code, from, len, maxLength). maxLength - len)") auto

declare findMatch_loop.simps [simp del]

definition findMatch :: "LzwEncoder \<Rightarrow> nat \<Rightarrow> nat \<Rightarrow> error + nat" where
  "findMatch e from maxLength =
     (if from < length (m_data e) then
        findMatch_loop (m_data e) (m_dictionary e) (unat (m_data e ! from)) (from + 1) 1 maxLength
      else Inl OutOfBounds)"

text \<open>
  The words of the specification for \<open>find_match\<close>: walking the trie from a code along
  a list of bytes, \<open>None\<close> as soon as a child is missing.
\<close>

fun walk :: "dictionary \<Rightarrow> nat \<Rightarrow> byte list \<Rightarrow> nat option" where
  "walk dict code [] = Some code"
| "walk dict code (b # bs) = (case dict code b of None \<Rightarrow> None | Some c \<Rightarrow> walk dict c bs)"

subsection \<open>LzwEncoder: settings and bit output\<close>

record OptimizationSettings =
  minCodeSize :: nat
  startWithClearCode :: bool
  verbose :: bool
  greedy :: bool
  minNonGreedyMatch :: nat
  minImprovement :: nat
  maxDictionary :: nat
  maxTokens :: nat
  splitRuns :: bool
  alignment :: nat
  readOnlyBest :: bool
  avoidNonGreedyAgain :: bool

text \<open>\<open>add(stream, token, numBits)\<close>: the low \<open>numBits\<close> bits of the token, lowest first.\<close>

fun add :: "bool list \<Rightarrow> nat \<Rightarrow> nat \<Rightarrow> bool list" where
  "add stream token 0 = stream"
| "add stream token (Suc numBits) = add (stream @ [odd token]) (token div 2) numBits"

text \<open>\<open>getMinBits(token)\<close>: the do-while loop shifts once before it tests.\<close>

function getMinBits_loop :: "nat \<Rightarrow> nat \<Rightarrow> nat" where
  "getMinBits_loop token result =
     (if token div 2 \<noteq> 0 then getMinBits_loop (token div 2) (result + 1) else result + 1)"
  by pat_completeness auto
termination
  by (relation "measure (\<lambda>(token, result). token)") auto

declare getMinBits_loop.simps [simp del]

definition getMinBits :: "nat \<Rightarrow> nat" where
  "getMinBits token = getMinBits_loop token 0"

text \<open>The test \<open>(threshold & (threshold - 1)) == 0\<close> on unsigned integers.\<close>

definition isPowerOfTwo :: "nat \<Rightarrow> bool" where
  "isPowerOfTwo threshold = (threshold AND (threshold - 1) = 0)"

subsection \<open>LzwEncoder: choosing the match (greedy and non-greedy)\<close>

text \<open>
  The run guard of the source (\<open>if (!optimize.splitRuns)\<close>): it compares the bytes of the
  match and clears \<open>tryNonGreedy\<close> when all are the same. It stands inside the branch
  \<open>if (tryNonGreedy)\<close> that has been entered already, and nothing reads the flag
  afterwards.
\<close>

function allTheSame_loop :: "byte list \<Rightarrow> nat \<Rightarrow> nat \<Rightarrow> nat \<Rightarrow> bool \<Rightarrow> bool" where
  "allTheSame_loop data i lastMatchByte scan allTheSame =
     (if scan + 1 < lastMatchByte \<and> allTheSame
      then allTheSame_loop data i lastMatchByte (scan + 1) (data ! i = data ! (i + scan))
      else allTheSame)"
  by pat_completeness auto
termination
  by (relation "measure (\<lambda>(data, i, lastMatchByte, scan, allTheSame). lastMatchByte - scan)") auto

declare allTheSame_loop.simps [simp del]

definition runGuard :: "LzwEncoder \<Rightarrow> OptimizationSettings \<Rightarrow> nat \<Rightarrow> nat \<Rightarrow> bool" where
  "runGuard e optimize i matchLength =
     (if \<not> splitRuns optimize then
        (let lastMatchByte = matchLength - 1;
             allTheSame = allTheSame_loop (m_data e) i lastMatchByte 1
                            (m_data e ! i = m_data e ! (i + lastMatchByte))
         in \<not> allTheSame)
      else True)"

text \<open>
  The loop \<open>for (shorter = matchLength - 1; shorter > 0; shorter--)\<close>; it returns the
  final \<open>best\<close> and \<open>choice\<close>.
\<close>

function nonGreedy_loop ::
  "LzwEncoder \<Rightarrow> nat \<Rightarrow> nat \<Rightarrow> nat \<Rightarrow> nat \<Rightarrow> nat \<Rightarrow> nat \<Rightarrow> error + (nat \<times> nat)"
where
  "nonGreedy_loop e i remaining atLeast' shorter best choice =
     (if shorter > 0 then
        (case findMatch e (i + shorter) (remaining - shorter) of
           Inl err \<Rightarrow> Inl err
         | Inr next \<Rightarrow>
             (let sum = shorter + next in
              if sum \<ge> atLeast' \<and> sum > best
              then nonGreedy_loop e i remaining atLeast' (shorter - 1) sum shorter
              else nonGreedy_loop e i remaining atLeast' (shorter - 1) best choice))
      else Inr (best, choice))"
  by pat_completeness auto
termination
  by (relation "measure (\<lambda>(e, i, remaining, atLeast', shorter, best, choice). shorter)") auto

declare nonGreedy_loop.simps [simp del]

text \<open>
  The flexible parsing block: the second greedy match, the sum of the two, the threshold
  \<open>atLeast\<close>, and the search over the shorter lengths. It returns the chosen length.
\<close>

definition lookahead ::
  "LzwEncoder \<Rightarrow> OptimizationSettings \<Rightarrow> nat \<Rightarrow> nat \<Rightarrow> nat \<Rightarrow> error + nat" where
  "lookahead e optimize i remaining matchLength =
     (let unused = runGuard e optimize i matchLength in
      case findMatch e (i + matchLength) (remaining - matchLength) of
        Inl err \<Rightarrow> Inl err
      | Inr second \<Rightarrow>
          (let best = matchLength + second;
               atLeast' = best + minImprovement optimize
           in case nonGreedy_loop e i remaining atLeast' (matchLength - 1) best matchLength of
                Inl err \<Rightarrow> Inl err
              | Inr (best', choice) \<Rightarrow> Inr choice))"

text \<open>
  Match finding at position \<open>i\<close> of a block \<open>[from, from + length)\<close>: the greedy match,
  the conditions under which the lookahead runs, and the result: the match length and
  whether a non-greedy match was taken.
\<close>

definition chooseMatch ::
  "LzwEncoder \<Rightarrow> OptimizationSettings \<Rightarrow> nat \<Rightarrow> nat \<Rightarrow> nat \<Rightarrow> error + (nat \<times> bool)" where
  "chooseMatch e optimize from len i =
     (let remaining = len + from - i in
      case findMatch e i remaining of
        Inl err \<Rightarrow> Inl err
      | Inr matchLength \<Rightarrow>
          (let tryNonGreedy = \<not> greedy optimize;
               tryNonGreedy = (if matchLength = 1 \<or> matchLength < minNonGreedyMatch optimize
                               then False else tryNonGreedy);
               tryNonGreedy = (if i + matchLength + 4 \<ge> length (m_data e)
                               then False else tryNonGreedy)
           in if tryNonGreedy then
                (case lookahead e optimize i remaining matchLength of
                   Inl err \<Rightarrow> Inl err
                 | Inr choice \<Rightarrow>
                     (if choice < matchLength then Inr (choice, True)
                      else Inr (matchLength, False)))
              else Inr (matchLength, False)))"

text \<open>The code size before a token is emitted (\<open>need one more bit per code ?\<close>).\<close>

definition nextCodeSize :: "LzwEncoder \<Rightarrow> nat \<Rightarrow> nat" where
  "nextCodeSize e codeSize =
     (if m_dictSize e < m_maxDictionary e then
        (let threshold = m_dictSize e - 1 in
         if isPowerOfTwo threshold \<and> codeSize < m_maxCodeLength e then
           (if \<not> m_isGif e \<and> threshold = 256 then codeSize + 1 - 1 else codeSize + 1)
         else codeSize)
      else codeSize)"

subsection \<open>LzwEncoder: optimizePartial\<close>

text \<open>The local variables of \<open>optimizePartial\<close> that its loop changes, and the encoder.\<close>

record partial_vars =
  enc :: LzwEncoder
  v_result :: "bool list"
  v_numBits :: nat
  v_numTokens :: nat
  v_numNonGreedyMatches :: nat
  v_matchLength :: nat
  v_codeSize :: nat

text \<open>\<open>m_best[k]\<close>, out of bounds beyond the vector.\<close>

definition bestAt :: "LzwEncoder \<Rightarrow> nat \<Rightarrow> error + BestBlock" where
  "bestAt e k = (if k < length (m_best e) then Inr (m_best e ! k) else Inl OutOfBounds)"

text \<open>
  The gap of the .Z format: the number of dummy tokens that fill a block up to a
  multiple of eight tokens.
\<close>

definition gapOf :: "nat \<Rightarrow> nat" where
  "gapOf n = (let mod8 = n AND 7 in if mod8 = 0 then 0 else 8 - mod8)"

text \<open>
  The extra bits if the block ended at the current byte (\<open>assuming the block would end
  here, a few extra bits are needed\<close>): the closing code, one bit more when the code size
  is about to grow, and for the .Z format the padding to the byte boundary and the dummy
  tokens; at the last byte the .Z format has no closing code.
\<close>

definition closingBits :: "LzwEncoder \<Rightarrow> partial_vars \<Rightarrow> bool \<Rightarrow> nat" where
  "closingBits e v isLastByte =
     (let add0 = v_codeSize v;
          threshold = m_dictSize e - 1;
          add1 = (if isPowerOfTwo threshold \<and> v_codeSize v < m_maxCodeLength e
                  then add0 + 1 else add0)
      in if \<not> m_isGif e then
           (let a = (if isLastByte then 0 else add1);
                a = (if v_numBits v mod 8 \<noteq> 0 then a + (8 - v_numBits v mod 8) else a)
            in if \<not> isLastByte then a + v_codeSize v * gapOf (v_numTokens v + 1) else a)
         else add1)"

text \<open>
  The cost evaluation at the end of one iteration (\<open>cost already determined ?\<close> to the
  update of \<open>m_best[fromAligned]\<close>). Every \<open>continue\<close> returns the encoder unchanged.
\<close>

definition costEvaluation ::
  "OptimizationSettings \<Rightarrow> nat \<Rightarrow> nat \<Rightarrow> nat \<Rightarrow> partial_vars \<Rightarrow> error + LzwEncoder" where
  "costEvaluation optimize fromAligned i numBytes v =
     (let e = enc v in
      if readOnlyBest optimize then Inr e
      else
        (let isLastByte = (i + 1 = length (m_data e));
             next = i + 1;
             nextAligned = (if alignment optimize > 1
                            then (next + alignment optimize - 1) div alignment optimize
                            else next)
         in case bestAt e nextAligned of
              Inl err \<Rightarrow> Inl err
            | Inr bestNext \<Rightarrow>
                if \<not> isLastByte \<and> totalBits bestNext = 0 then Inr e
                else if alignment optimize > 1 \<and> numBytes mod alignment optimize \<noteq> 0
                        \<and> \<not> isLastByte then Inr e
                else if \<not> m_isGif e \<and> \<not> isLastByte \<and> v_codeSize v < 16 then Inr e
                else
                  (let isPartial = (v_matchLength v > 0);
                       trueBits = v_numBits v + closingBits e v isLastByte;
                       total = trueBits + totalBits bestNext
                   in case bestAt e fromAligned of
                        Inl err \<Rightarrow> Inl err
                      | Inr best \<Rightarrow>
                          if totalBits best = 0 \<or> totalBits best \<ge> total then
                            Inr (e\<lparr>m_best := (m_best e)[fromAligned :=
                                   \<lparr>length_best = numBytes, bits = trueBits,
                                    totalBits = total, tokens = v_numTokens v,
                                    nongreedy = v_numNonGreedyMatches v,
                                    partial = isPartial\<rparr>]\<rparr>)
                          else Inr e)))"

text \<open>
  The branch \<open>need new match ?\<close> of an iteration: the two limits that leave the loop by
  \<open>break\<close>, the match, the code size, the dictionary and the token.
\<close>

definition newMatch ::
  "OptimizationSettings \<Rightarrow> bool \<Rightarrow> nat \<Rightarrow> nat \<Rightarrow> nat \<Rightarrow> partial_vars
     \<Rightarrow> error + (bool \<times> partial_vars)" where
  "newMatch optimize emitBitStream from len i v =
     (if maxDictionary optimize > 0 \<and> m_dictSize (enc v) \<ge> maxDictionary optimize
      then Inr (True, v)
      else if maxTokens optimize > 0 \<and> v_numTokens v \<ge> maxTokens optimize
      then Inr (True, v)
      else
        (case chooseMatch (enc v) optimize from len i of
           Inl err \<Rightarrow> Inl err
         | Inr (matchLength', nonGreedy) \<Rightarrow>
             (let codeSize' = nextCodeSize (enc v) (v_codeSize v) in
              case addCode (enc v) i matchLength' of
                Inl err \<Rightarrow> Inl err
              | Inr (code, e') \<Rightarrow>
                  (let token = (case code of None \<Rightarrow> 2 ^ 32 - 1 | Some c \<Rightarrow> c)
                   in Inr (False,
                        v\<lparr>enc := e',
                          v_result := (if emitBitStream then add (v_result v) token codeSize'
                                       else v_result v),
                          v_numBits := v_numBits v + codeSize',
                          v_numTokens := v_numTokens v + 1,
                          v_numNonGreedyMatches :=
                            (if nonGreedy then v_numNonGreedyMatches v + 1
                             else v_numNonGreedyMatches v),
                          v_matchLength := matchLength',
                          v_codeSize := codeSize'\<rparr>)))))"

text \<open>
  One iteration of the loop \<open>for (i = from; i <= lastPos; i++)\<close>. The result says
  whether the loop was left by \<open>break\<close>.
\<close>

definition optimizePartial_body ::
  "OptimizationSettings \<Rightarrow> bool \<Rightarrow> nat \<Rightarrow> nat \<Rightarrow> nat \<Rightarrow> nat \<Rightarrow> partial_vars
     \<Rightarrow> error + (bool \<times> partial_vars)" where
  "optimizePartial_body optimize emitBitStream from len fromAligned i v =
     (let numBytes = i - from + 1 in
      case (if v_matchLength v = 0 then newMatch optimize emitBitStream from len i v
            else Inr (False, v)) of
        Inl err \<Rightarrow> Inl err
      | Inr (True, v') \<Rightarrow> Inr (True, v')
      | Inr (False, v') \<Rightarrow>
          (let v'' = v'\<lparr>v_matchLength := v_matchLength v' - 1\<rparr> in
           case costEvaluation optimize fromAligned i numBytes v'' of
             Inl err \<Rightarrow> Inl err
           | Inr e' \<Rightarrow> Inr (False, v''\<lparr>enc := e'\<rparr>)))"

function optimizePartial_loop ::
  "OptimizationSettings \<Rightarrow> bool \<Rightarrow> nat \<Rightarrow> nat \<Rightarrow> nat \<Rightarrow> nat \<Rightarrow> nat \<Rightarrow> partial_vars
     \<Rightarrow> error + partial_vars" where
  "optimizePartial_loop optimize emitBitStream from len fromAligned lastPos i v =
     (if i \<le> lastPos then
        (case optimizePartial_body optimize emitBitStream from len fromAligned i v of
           Inl err \<Rightarrow> Inl err
         | Inr (True, v') \<Rightarrow> Inr v'
         | Inr (False, v') \<Rightarrow>
             optimizePartial_loop optimize emitBitStream from len fromAligned lastPos (i + 1) v')
      else Inr v)"
  by pat_completeness auto
termination
  by (relation "measure (\<lambda>(optimize, emitBitStream, from, len, fromAligned, lastPos, i, v).
        lastPos + 1 - i)") auto

declare optimizePartial_loop.simps [simp del]

text \<open>
  The end of the block (\<open>if (emitBitStream)\<close> after the loop): the closing code, and for
  the .Z format the padding to the byte boundary and to a multiple of eight tokens.
\<close>

definition padToByte :: "bool list \<Rightarrow> bool list" where
  "padToByte stream = stream @ replicate ((8 - length stream mod 8) mod 8) False"

definition finishBlock ::
  "OptimizationSettings \<Rightarrow> bool \<Rightarrow> partial_vars \<Rightarrow> error + bool list" where
  "finishBlock optimize isFinal v =
     (let e = enc v;
          clear = 2 ^ minCodeSize optimize;
          endOfStream = clear + 1;
          codeSize' = getMinBits (m_dictSize e - 1)
      in if m_isGif e then
           Inr (add (v_result v) (if isFinal then endOfStream else clear) codeSize')
         else
           (let stream = (if \<not> isFinal then add (v_result v) clear codeSize' else v_result v);
                numTokens' = (if \<not> isFinal then v_numTokens v + 1 else v_numTokens v);
                stream = padToByte stream
            in if \<not> isFinal then
                 (if codeSize' \<noteq> 16 then
                    Inl (Thrown ''flexiGIF currently only supports restarts with code size = 16'')
                  else
                    (let gap = gapOf numTokens';
                         numZeros = codeSize' * gap div 8
                     in Inr (stream @ replicate (8 * numZeros) False)))
               else Inr stream))"

definition optimizePartial ::
  "LzwEncoder \<Rightarrow> nat \<Rightarrow> nat \<Rightarrow> bool \<Rightarrow> bool \<Rightarrow> OptimizationSettings
     \<Rightarrow> error + (bool list \<times> LzwEncoder)" where
  "optimizePartial e0 from maxLength emitBitStream isFinal optimize0 =
     (if m_best e0 = [] \<and> alignment optimize0 = 0 then Inl DivisionByZero
      else
        (let e = (if m_best e0 = []
                  then e0\<lparr>m_best := replicate (length (m_data e0) div alignment optimize0 + 1 + 1)
                                        newBestBlock\<rparr>
                  else e0);
             len = (length (m_data e) + 2 ^ 32 - from) mod 2 ^ 32;
             len = (if len > maxLength \<and> maxLength \<noteq> 0 then maxLength else len);
             optimize = (if alignment optimize0 = 0 then optimize0\<lparr>alignment := 1\<rparr>
                         else optimize0);
             fromAligned = from div alignment optimize
         in if from mod alignment optimize \<noteq> 0
            then Inl (Thrown ''non-aligned block start is forbidden'')
            else
              (case (if greedy optimize \<and> avoidNonGreedyAgain optimize \<and> \<not> emitBitStream
                     then (case bestAt e fromAligned of
                             Inl err \<Rightarrow> Inl err
                           | Inr b \<Rightarrow> Inr (nongreedy b = 0 \<and> length_best b > 0))
                     else Inr False) of
                 Inl err \<Rightarrow> Inl err
               | Inr True \<Rightarrow> Inr ([], e)
               | Inr False \<Rightarrow>
                   (let clear = 2 ^ minCodeSize optimize;
                        e = e\<lparr>m_dictionary := (\<lambda>c b. None),
                              m_dictSize := (if m_isGif e then clear + 2 else clear + 1)\<rparr>;
                        v = \<lparr>enc = e, v_result = [], v_numBits = 0, v_numTokens = 0,
                             v_numNonGreedyMatches = 0, v_matchLength = 0,
                             v_codeSize = getMinBits (m_dictSize e)\<rparr>;
                        lastPos = (from + len + 2 ^ 32 - 1) mod 2 ^ 32
                    in case optimizePartial_loop optimize emitBitStream from len fromAligned
                              lastPos from v of
                         Inl err \<Rightarrow> Inl err
                       | Inr v' \<Rightarrow>
                           (if emitBitStream then
                              (case finishBlock optimize isFinal v' of
                                 Inl err \<Rightarrow> Inl err
                               | Inr stream \<Rightarrow> Inr (stream, enc v'))
                            else Inr (v_result v', enc v'))))))"

subsection \<open>LzwEncoder: merge and optimize\<close>

text \<open>
  \<open>merge(restarts, optimize)\<close>. The verbose output is not modelled. The loop keeps its
  changes to \<open>optimize\<close> from one block to the next, as the source does.
\<close>

function merge_loop ::
  "LzwEncoder \<Rightarrow> nat list \<Rightarrow> OptimizationSettings \<Rightarrow> nat \<Rightarrow> nat \<Rightarrow> bool list
     \<Rightarrow> error + (bool list \<times> LzwEncoder)" where
  "merge_loop e restarts optimize pos i result =
     (if i < length restarts then
        (if restarts ! i = 0 then merge_loop e restarts optimize pos (i + 1) result
         else
           (let isFinal = (i = length restarts - 1);
                len = (restarts ! i + 2 ^ 32 - pos) mod 2 ^ 32
            in case (if m_best e \<noteq> [] then
                       (if alignment optimize = 0 then Inl DivisionByZero
                        else (case bestAt e (pos div alignment optimize) of
                                Inl err \<Rightarrow> Inl err
                              | Inr b \<Rightarrow>
                                  (let g = (nongreedy b = 0) in
                                   Inr (optimize\<lparr>greedy := g,
                                          avoidNonGreedyAgain :=
                                            (if g then True else avoidNonGreedyAgain optimize)\<rparr>))))
                     else Inr optimize) of
                 Inl err \<Rightarrow> Inl err
               | Inr optimize' \<Rightarrow>
                   (let optimize'' = optimize'\<lparr>readOnlyBest := True\<rparr> in
                    case optimizePartial e pos len True isFinal optimize'' of
                      Inl err \<Rightarrow> Inl err
                    | Inr (block, e') \<Rightarrow>
                        (if block = [] \<and> len > 0
                         then Inl (Thrown ''optimization failed due to an internal error'')
                         else merge_loop e' restarts optimize'' (restarts ! i) (i + 1)
                                (result @ block)))))
      else Inr (result, e))"
  by pat_completeness auto
termination
  by (relation "measure (\<lambda>(e, restarts, optimize, pos, i, result). length restarts - i)") auto

declare merge_loop.simps [simp del]

definition merge ::
  "LzwEncoder \<Rightarrow> nat list \<Rightarrow> OptimizationSettings \<Rightarrow> error + (bool list \<times> LzwEncoder)" where
  "merge e restarts0 optimize =
     (let result = (if startWithClearCode optimize \<and> m_isGif e
                    then replicate (minCodeSize optimize) False @ [True] else [])
      in if restarts0 = [] then Inr (result, e)
         else
           (let restarts = (if last restarts0 < length (m_data e)
                            then restarts0 @ [length (m_data e)] else restarts0)
            in merge_loop e restarts optimize 0 0 result))"

text \<open>
  The search of \<open>flexiGIF.cpp\<close> for the block boundaries: \<open>optimizePartial\<close> without
  output at every aligned position, from the last byte down to the first, and a second
  time with greedy search in the \<open>--prettygood\<close> mode. \<open>estimateCosts e opt smartGreedy n\<close>
  runs the positions \<open>n - 1, ..., 0\<close>.
\<close>

fun estimateCosts ::
  "LzwEncoder \<Rightarrow> OptimizationSettings \<Rightarrow> bool \<Rightarrow> nat \<Rightarrow> error + LzwEncoder" where
  "estimateCosts e opt smartGreedy 0 = Inr e"
| "estimateCosts e opt smartGreedy (Suc i) =
     (if alignment opt = 0 then Inl DivisionByZero
      else if i mod alignment opt \<noteq> 0 then estimateCosts e opt smartGreedy i
      else
        (case optimizePartial e i 0 False True opt of
           Inl err \<Rightarrow> Inl err
         | Inr (unused, e') \<Rightarrow>
             (if smartGreedy \<and> \<not> greedy opt then
                (case optimizePartial e' i 0 False True (opt\<lparr>greedy := True\<rparr>) of
                   Inl err \<Rightarrow> Inl err
                 | Inr (unused', e'') \<Rightarrow> estimateCosts e'' opt smartGreedy i)
              else estimateCosts e' opt smartGreedy i)))"

text \<open>\<open>optimize(optimize)\<close>: the restarts along \<open>m_best\<close>, then \<open>merge\<close>.\<close>

function optimize_loop ::
  "LzwEncoder \<Rightarrow> OptimizationSettings \<Rightarrow> nat \<Rightarrow> nat \<Rightarrow> nat list \<Rightarrow> error + nat list" where
  "optimize_loop e opt pos aligned restarts =
     (if pos < length (m_data e) then
        (case bestAt e aligned of
           Inl err \<Rightarrow> Inl err
         | Inr b \<Rightarrow>
             (if length_best b = 0 then
                Inl (Thrown ''you need to choose a smaller alignment value or increase the token limit because there is a gap between two blocks'')
              else if alignment opt = 0 then Inl DivisionByZero
              else optimize_loop e opt (pos + length_best b)
                     ((pos + length_best b) div alignment opt)
                     (restarts @ [pos + length_best b])))
      else Inr restarts)"
  by pat_completeness auto
termination
  by (relation "measure (\<lambda>(e, opt, pos, aligned, restarts). length (m_data e) - pos)") auto

declare optimize_loop.simps [simp del]

definition optimize ::
  "LzwEncoder \<Rightarrow> OptimizationSettings \<Rightarrow> error + (bool list \<times> LzwEncoder)" where
  "optimize e opt =
     (case optimize_loop e opt 0 0 [] of
        Inl err \<Rightarrow> Inl err
      | Inr restarts \<Rightarrow> merge e restarts opt)"

section \<open>BinaryInputBuffer\<close>

text \<open>
  The reader of a file, bit by bit. \<open>m_stream\<close> holds the bytes of the file that
  \<open>getBufferedByte\<close> has not delivered yet: the file stream and its cache of 1024 bytes
  are one list here. Reading a byte beyond the end of the file (the source then delivers
  stale bytes of the cache) is \<open>OutOfBounds\<close>.
\<close>

record BinaryInputBuffer =
  m_stream :: "byte list"
  m_read :: nat
  m_bitsLeft :: nat
  m_bitBuffer :: "32 word"
  m_bitBufferSize :: nat

definition newBinaryInputBuffer :: "byte list \<Rightarrow> BinaryInputBuffer" where
  "newBinaryInputBuffer file =
     \<lparr>m_stream = file, m_read = 0, m_bitsLeft = 8 * length file, m_bitBuffer = 0,
      m_bitBufferSize = 0\<rparr>"

definition getNumBitsLeft :: "BinaryInputBuffer \<Rightarrow> nat" where
  "getNumBitsLeft b = m_bitsLeft b"

definition getBufferedByte :: "BinaryInputBuffer \<Rightarrow> error + (byte \<times> BinaryInputBuffer)" where
  "getBufferedByte b =
     (case m_stream b of
        [] \<Rightarrow> Inl OutOfBounds
      | x # xs \<Rightarrow> Inr (x, b\<lparr>m_stream := xs, m_read := m_read b + 1\<rparr>))"

text \<open>The loop of \<open>peekBits\<close>: \<open>move 8 bits from stream to buffer\<close>.\<close>

function peekBits_loop :: "nat \<Rightarrow> BinaryInputBuffer \<Rightarrow> error + BinaryInputBuffer" where
  "peekBits_loop numBits b =
     (if m_bitBufferSize b < numBits then
        (case getBufferedByte b of
           Inl err \<Rightarrow> Inl err
         | Inr (byte, b') \<Rightarrow>
             peekBits_loop numBits
               (b'\<lparr>m_bitBuffer := m_bitBuffer b OR push_bit (m_bitBufferSize b) (ucast byte),
                   m_bitBufferSize := m_bitBufferSize b + 8\<rparr>))
      else Inr b)"
  by pat_completeness auto
termination
  by (relation "measure (\<lambda>(numBits, b). numBits - m_bitBufferSize b)") auto

declare peekBits_loop.simps [simp del]

definition peekBits :: "BinaryInputBuffer \<Rightarrow> nat \<Rightarrow> error + (nat \<times> BinaryInputBuffer)" where
  "peekBits b numBits =
     (if \<not> numBits \<le> 16 then Inl AssertFailed
      else if \<not> numBits \<le> m_bitsLeft b then Inl AssertFailed
      else
        (case peekBits_loop numBits b of
           Inl err \<Rightarrow> Inl err
         | Inr b' \<Rightarrow>
             (let bitMask = push_bit numBits 1 - 1
              in Inr (unat (m_bitBuffer b' AND bitMask), b'))))"

definition removeBits :: "BinaryInputBuffer \<Rightarrow> nat \<Rightarrow> error + BinaryInputBuffer" where
  "removeBits b numBits =
     (case (if m_bitBufferSize b < numBits
            then (case peekBits b numBits of Inl err \<Rightarrow> Inl err | Inr (unused, b') \<Rightarrow> Inr b')
            else Inr b) of
        Inl err \<Rightarrow> Inl err
      | Inr b' \<Rightarrow>
          Inr (b'\<lparr>m_bitBuffer := drop_bit numBits (m_bitBuffer b'),
                  m_bitBufferSize := m_bitBufferSize b' - numBits,
                  m_bitsLeft := (if numBits \<le> m_bitsLeft b' then m_bitsLeft b' - numBits
                                 else m_bitsLeft b' + 2 ^ 32 - numBits)\<rparr>))"

definition getBits :: "BinaryInputBuffer \<Rightarrow> nat \<Rightarrow> error + (nat \<times> BinaryInputBuffer)" where
  "getBits b numBits =
     (case peekBits b numBits of
        Inl err \<Rightarrow> Inl err
      | Inr (r, b') \<Rightarrow>
          (case removeBits b' numBits of
             Inl err \<Rightarrow> Inl err
           | Inr b'' \<Rightarrow> Inr (r, b'')))"

definition getByte :: "BinaryInputBuffer \<Rightarrow> error + (nat \<times> BinaryInputBuffer)" where
  "getByte b =
     (case getBits b 8 of
        Inl err \<Rightarrow> Inl err
      | Inr (r, b') \<Rightarrow> Inr (r mod 256, b'))"

section \<open>LzwDecoder\<close>

text \<open>
  A \<open>BackReference\<close>: \<open>NoPrevious = -1\<close> is \<open>None\<close>. The entries of the clear and the
  end-of-stream code are never set; the vector has zeroed them.
\<close>

record BackReference =
  length_ref :: nat
  previous :: "nat option"
  last_ref :: byte
  pos :: "nat option"

record LzwDecoder =
  m_input :: BinaryInputBuffer
  m_bytes :: "byte list"
  m_isGif_dec :: bool
  m_codeSize :: nat
  m_bitsLeftInCurrentBlock :: nat
  m_numBitsOriginalLZW :: nat

definition getLzwBits :: "LzwDecoder \<Rightarrow> nat \<Rightarrow> error + (nat \<times> LzwDecoder)" where
  "getLzwBits d0 numBits =
     (if numBits = 0 then Inr (0, d0)
      else
        (let d = d0\<lparr>m_numBitsOriginalLZW := m_numBitsOriginalLZW d0 + numBits\<rparr> in
         if \<not> m_isGif_dec d then
           (case getBits (m_input d) numBits of
              Inl err \<Rightarrow> Inl err
            | Inr (r, inp) \<Rightarrow> Inr (r, d\<lparr>m_input := inp\<rparr>))
         else if numBits \<le> m_bitsLeftInCurrentBlock d then
           (case getBits (m_input d) numBits of
              Inl err \<Rightarrow> Inl err
            | Inr (r, inp) \<Rightarrow>
                Inr (r, d\<lparr>m_input := inp,
                           m_bitsLeftInCurrentBlock := m_bitsLeftInCurrentBlock d - numBits\<rparr>))
         else
           (case (if m_bitsLeftInCurrentBlock d > 0 then
                    (case getBits (m_input d) (m_bitsLeftInCurrentBlock d) of
                       Inl err \<Rightarrow> Inl err
                     | Inr (low, inp) \<Rightarrow>
                         Inr (low, m_bitsLeftInCurrentBlock d,
                              numBits - m_bitsLeftInCurrentBlock d, inp))
                  else Inr (0, 0, numBits, m_input d)) of
              Inl err \<Rightarrow> Inl err
            | Inr (low, shift, numBits', inp) \<Rightarrow>
                (case getByte inp of
                   Inl err \<Rightarrow> Inl err
                 | Inr (blockSize, inp') \<Rightarrow>
                     (let left = 8 * blockSize in
                      if left < numBits' then Inl (Thrown ''too few bits available in unlzw'')
                      else
                        (case getBits inp' numBits' of
                           Inl err \<Rightarrow> Inl err
                         | Inr (r, inp'') \<Rightarrow>
                             (let high = push_bit shift r in
                              Inr (low OR high,
                                   d\<lparr>m_input := inp'',
                                     m_bitsLeftInCurrentBlock := left - numBits'\<rparr>))))))))"

text \<open>
  \<open>decode(buffer, code, lut)\<close>. The loop writes the bytes from the last to the first
  while it follows \<open>previous\<close>; \<open>decode_loop\<close> returns them in the order of the buffer.
\<close>

fun decode_loop :: "BackReference list \<Rightarrow> nat option \<Rightarrow> nat \<Rightarrow> error + byte list" where
  "decode_loop lut code 0 = Inr []"
| "decode_loop lut code (Suc len) =
     (case code of
        None \<Rightarrow> Inl OutOfBounds
      | Some c \<Rightarrow>
          (if c < length lut then
             (case decode_loop lut (previous (lut ! c)) len of
                Inl err \<Rightarrow> Inl err
              | Inr bs \<Rightarrow> Inr (bs @ [last_ref (lut ! c)]))
           else Inl OutOfBounds))"

definition decode :: "byte list \<Rightarrow> nat \<Rightarrow> BackReference list \<Rightarrow> error + byte list" where
  "decode buffer code lut =
     (if code < length lut then
        (if length_ref (lut ! code) = 1 then Inr (buffer @ [last_ref (lut ! code)])
         else
           (case decode_loop lut (Some code) (length_ref (lut ! code)) of
              Inl err \<Rightarrow> Inl err
            | Inr bs \<Rightarrow> Inr (buffer @ bs)))
      else Inl OutOfBounds)"

text \<open>
  The local variables of \<open>decompress\<close> that its loop changes, and the decoder. The
  counters that only the verbose output reads (\<open>numTokensTotal\<close>, \<open>numBitsBlock\<close>,
  \<open>numBitsTotal\<close>, \<open>uptoLastBlock\<close>) are left out, and so is the hint
  \<open>expectedNumberOfBytes\<close>.
\<close>

record decompress_vars =
  dec :: LzwDecoder
  d_lut :: "BackReference list"
  d_codeSize :: nat
  d_prevToken :: "nat option"
  d_token :: nat
  d_numTokensBlock :: nat

definition clearCode :: "nat \<Rightarrow> nat" where
  "clearCode minCodeSize' = 2 ^ minCodeSize'"

definition endOfStreamCode :: "bool \<Rightarrow> nat \<Rightarrow> nat" where
  "endOfStreamCode isGif minCodeSize' =
     (if isGif then clearCode minCodeSize' + 1 else 2 ^ 32 - 1)"

definition MaxToken :: "nat \<Rightarrow> nat" where
  "MaxToken maxCodeSize = 2 ^ maxCodeSize"

definition zeroReference :: BackReference where
  "zeroReference = \<lparr>length_ref = 0, previous = Some 0, last_ref = 0, pos = Some 0\<rparr>"

definition literalReference :: "nat \<Rightarrow> BackReference" where
  "literalReference i = \<lparr>length_ref = 1, previous = None, last_ref = of_nat i, pos = None\<rparr>"

text \<open>The look-up table at the start: the literals, then one or two unset entries.\<close>

definition initialLut :: "bool \<Rightarrow> nat \<Rightarrow> BackReference list" where
  "initialLut isGif minCodeSize' =
     map literalReference [0 ..< clearCode minCodeSize']
       @ replicate (if isGif then 2 else 1) zeroReference"

text \<open>\<open>d_token = getLzwBits(codeSize); while (token == clear) d_token = getLzwBits(codeSize);\<close>\<close>

partial_function (option) skipClearCodes ::
  "LzwDecoder \<Rightarrow> nat \<Rightarrow> nat \<Rightarrow> (error + (nat \<times> LzwDecoder)) option" where
  "skipClearCodes d codeSize' clear =
     (case getLzwBits d codeSize' of
        Inl err \<Rightarrow> Some (Inl err)
      | Inr (token', d') \<Rightarrow>
          (if token' = clear then skipClearCodes d' codeSize' clear
           else Some (Inr (token', d'))))"

declare skipClearCodes.simps [code]

text \<open>\<open>while (gap-- > 0) m_input.getBits(codeSize);\<close>\<close>

fun skipGap :: "BinaryInputBuffer \<Rightarrow> nat \<Rightarrow> nat \<Rightarrow> error + BinaryInputBuffer" where
  "skipGap inp codeSize' 0 = Inr inp"
| "skipGap inp codeSize' (Suc gap) =
     (case getBits inp codeSize' of
        Inl err \<Rightarrow> Inl err
      | Inr (unused, inp') \<Rightarrow> skipGap inp' codeSize' gap)"

text \<open>
  The body of \<open>while (token == clear)\<close> inside the main loop. It ends with a token that
  is at most \<open>maxColor\<close>, so the source runs it once and continues the main loop.
\<close>

definition resetDictionary ::
  "nat \<Rightarrow> decompress_vars \<Rightarrow> LzwDecoder \<Rightarrow> nat \<Rightarrow> error + decompress_vars" where
  "resetDictionary minCodeSize' s d codeSize' =
     (let clear = clearCode minCodeSize';
          maxColor = clear - 1;
          isGif = m_isGif_dec d
      in case
           (if isGif then Inr (take (clear + 2) (d_lut s), d)
            else
              (case (if m_numBitsOriginalLZW d mod 8 \<noteq> 0
                     then (case getLzwBits d (8 - m_numBitsOriginalLZW d mod 8) of
                             Inl err \<Rightarrow> Inl err
                           | Inr (unused, d') \<Rightarrow> Inr d')
                     else Inr d) of
                 Inl err \<Rightarrow> Inl err
               | Inr d' \<Rightarrow>
                   (case skipGap (m_input d') codeSize' (gapOf (d_numTokensBlock s)) of
                      Inl err \<Rightarrow> Inl err
                    | Inr inp \<Rightarrow> Inr (take (clear + 1) (d_lut s), d'\<lparr>m_input := inp\<rparr>))))
         of
           Inl err \<Rightarrow> Inl err
         | Inr (lut', d') \<Rightarrow>
             (case getLzwBits d' (minCodeSize' + 1) of
                Inl err \<Rightarrow> Inl err
              | Inr (token', d'') \<Rightarrow>
                  (if token' > maxColor
                   then Inl (Thrown ''block starts with an undefined value/color'')
                   else Inr \<lparr>dec = d''\<lparr>m_bytes := m_bytes d'' @ [of_nat token']\<rparr>,
                             d_lut = lut', d_codeSize = minCodeSize' + 1, d_prevToken = None,
                             d_token = token', d_numTokensBlock = 1\<rparr>)))"

text \<open>
  The end of an iteration (\<open>new LZW code\<close>): the bytes of the token go to the output
  and a code is added to the look-up table.
\<close>

definition newCode ::
  "nat \<Rightarrow> decompress_vars \<Rightarrow> error + decompress_vars" where
  "newCode maxCodeSize s =
     (case d_prevToken s of
        None \<Rightarrow> Inl OutOfBounds
      | Some prev \<Rightarrow>
          (if prev < length (d_lut s) then
             (let d = dec s;
                  addLength = length_ref (d_lut s ! prev) + 1;
                  addPos = length (m_bytes d)
              in case
                   (if d_token s \<ge> length (d_lut s) then
                      (if d_token s \<noteq> length (d_lut s) then Inl (Thrown ''unknown token found'')
                       else if length (d_lut s) \<ge> MaxToken maxCodeSize
                       then Inl (Thrown ''dictionary too large'')
                       else
                         (case decode (m_bytes d) prev (d_lut s) of
                            Inl err \<Rightarrow> Inl err
                          | Inr bytes \<Rightarrow>
                              (if addPos < length bytes
                               then Inr (bytes ! addPos, bytes @ [bytes ! addPos])
                               else Inl OutOfBounds)))
                    else
                      (case decode (m_bytes d) (d_token s) (d_lut s) of
                         Inl err \<Rightarrow> Inl err
                       | Inr bytes \<Rightarrow>
                           (if addPos < length bytes then Inr (bytes ! addPos, bytes)
                            else Inl OutOfBounds)))
                 of
                   Inl err \<Rightarrow> Inl err
                 | Inr (addLast, bytes) \<Rightarrow>
                     Inr (s\<lparr>dec := d\<lparr>m_bytes := bytes\<rparr>,
                            d_lut := (if length (d_lut s) < MaxToken maxCodeSize
                                    then d_lut s @ [\<lparr>length_ref = addLength, previous = Some prev,
                                                  last_ref = addLast, pos = Some addPos\<rparr>]
                                    else d_lut s)\<rparr>))
           else Inl OutOfBounds))"

text \<open>
  One iteration of the main loop \<open>while (token != endOfStream)\<close>. The result says
  whether the loop was left by \<open>break\<close>.
\<close>

definition decompress_body ::
  "nat \<Rightarrow> nat \<Rightarrow> decompress_vars \<Rightarrow> error + (bool \<times> decompress_vars)" where
  "decompress_body minCodeSize' maxCodeSize s =
     (let d = dec s;
          isGif = m_isGif_dec d;
          clear = clearCode minCodeSize';
          endOfStream = endOfStreamCode isGif minCodeSize';
          powerOfTwo = 2 ^ d_codeSize s;
          codeSize' = (if length (d_lut s) = powerOfTwo \<and> d_codeSize s < maxCodeSize
                       then d_codeSize s + 1 else d_codeSize s)
      in if \<not> isGif \<and> codeSize' > getNumBitsLeft (m_input d)
         then Inr (True, s\<lparr>d_codeSize := codeSize'\<rparr>)
         else
           (case getLzwBits d codeSize' of
              Inl err \<Rightarrow> Inl err
            | Inr (token', d') \<Rightarrow>
                (if token' > length (d_lut s) then Inl (Thrown ''invalid token'')
                 else
                   (let s' = s\<lparr>dec := d', d_codeSize := codeSize', d_prevToken := Some (d_token s),
                               d_token := token', d_numTokensBlock := d_numTokensBlock s + 1\<rparr>
                    in if token' = clear then
                         (case resetDictionary minCodeSize' s' d' codeSize' of
                            Inl err \<Rightarrow> Inl err
                          | Inr s'' \<Rightarrow> Inr (False, s''))
                       else if token' = endOfStream then Inr (True, s')
                       else
                         (case newCode maxCodeSize s' of
                            Inl err \<Rightarrow> Inl err
                          | Inr s'' \<Rightarrow> Inr (False, s''))))))"

partial_function (option) decompress_loop ::
  "nat \<Rightarrow> nat \<Rightarrow> decompress_vars \<Rightarrow> (error + decompress_vars) option" where
  "decompress_loop minCodeSize' maxCodeSize s =
     (if d_token s \<noteq> endOfStreamCode (m_isGif_dec (dec s)) minCodeSize' then
        (case decompress_body minCodeSize' maxCodeSize s of
           Inl err \<Rightarrow> Some (Inl err)
         | Inr (break, s') \<Rightarrow>
             (if break then Some (Inr s') else decompress_loop minCodeSize' maxCodeSize s'))
      else Some (Inr s))"

declare decompress_loop.simps [code]

text \<open>After the loop: \<open>skip remaining bits\<close> and, for a GIF, the empty block.\<close>

function skipBytes :: "LzwDecoder \<Rightarrow> nat \<Rightarrow> error + (nat \<times> LzwDecoder)" where
  "skipBytes d unusedBits =
     (if unusedBits > 8 then
        (case getLzwBits d 8 of
           Inl err \<Rightarrow> Inl err
         | Inr (unused, d') \<Rightarrow> skipBytes d' (unusedBits - 8))
      else Inr (unusedBits, d))"
  by pat_completeness auto
termination
  by (relation "measure (\<lambda>(d, unusedBits). unusedBits)") auto

declare skipBytes.simps [simp del]

definition decompress_finish :: "LzwDecoder \<Rightarrow> error + LzwDecoder" where
  "decompress_finish d =
     (case (if m_bitsLeftInCurrentBlock d \<ge> 8 then skipBytes d (m_bitsLeftInCurrentBlock d)
            else Inr (m_bitsLeftInCurrentBlock d, d)) of
        Inl err \<Rightarrow> Inl err
      | Inr (unusedBits, d') \<Rightarrow>
          (case getLzwBits d' unusedBits of
             Inl err \<Rightarrow> Inl err
           | Inr (unused, d'') \<Rightarrow>
               (case (if m_isGif_dec d'' then
                        (case getByte (m_input d'') of
                           Inl err \<Rightarrow> Inl err
                         | Inr (terminator, inp) \<Rightarrow>
                             (if terminator \<noteq> 0
                              then Inl (Thrown ''LZW data is not properly terminated'')
                              else Inr (d''\<lparr>m_input := inp\<rparr>)))
                      else Inr d'') of
                  Inl err \<Rightarrow> Inl err
                | Inr d3 \<Rightarrow>
                    Inr (d3\<lparr>m_numBitsOriginalLZW :=
                              (if unusedBits \<le> m_numBitsOriginalLZW d3
                               then m_numBitsOriginalLZW d3 - unusedBits
                               else m_numBitsOriginalLZW d3 + 2 ^ 32 - unusedBits)\<rparr>))))"

text \<open>
  The constructor \<open>LzwDecoder(input, isGif, minCodeSize, maxCodeSize, ...)\<close>, which runs
  \<open>decompress\<close>. The result is \<open>None\<close> when the decoder does not return.
\<close>

definition decompress ::
  "BinaryInputBuffer \<Rightarrow> bool \<Rightarrow> nat \<Rightarrow> nat \<Rightarrow> (error + LzwDecoder) option" where
  "decompress input isGif minCodeSize' maxCodeSize =
     (let d = \<lparr>m_input = input, m_bytes = [], m_isGif_dec = isGif, m_codeSize = minCodeSize',
               m_bitsLeftInCurrentBlock = 0, m_numBitsOriginalLZW = 0\<rparr>;
          clear = clearCode minCodeSize';
          endOfStream = endOfStreamCode isGif minCodeSize';
          lut0 = initialLut isGif minCodeSize';
          codeSize0 = minCodeSize' + 1
      in case skipClearCodes d codeSize0 clear of
           None \<Rightarrow> None
         | Some (Inl err) \<Rightarrow> Some (Inl err)
         | Some (Inr (token0, d')) \<Rightarrow>
             (if token0 \<ge> length lut0 then Some (Inl (Thrown ''invalid token''))
              else
                (let d'' = (if token0 \<noteq> endOfStream
                            then d'\<lparr>m_bytes := m_bytes d' @ [of_nat token0]\<rparr> else d')
                 in case decompress_loop minCodeSize' maxCodeSize
                           \<lparr>dec = d'', d_lut = lut0, d_codeSize = codeSize0, d_prevToken = None,
                            d_token = token0, d_numTokensBlock = 1\<rparr> of
                      None \<Rightarrow> None
                    | Some (Inl err) \<Rightarrow> Some (Inl err)
                    | Some (Inr s) \<Rightarrow> Some (decompress_finish (dec s)))))"

definition getBytes :: "LzwDecoder \<Rightarrow> byte list" where
  "getBytes d = m_bytes d"

section \<open>The containers: writing the bit stream\<close>

text \<open>One byte from at most eight bits, the first bit lowest.\<close>

fun bitsToByte :: "bool list \<Rightarrow> byte" where
  "bitsToByte [] = 0"
| "bitsToByte (b # bs) = (if b then 1 else 0) + 2 * bitsToByte bs"

function writeBytes :: "bool list \<Rightarrow> byte list" where
  "writeBytes stream =
     (if stream = [] then [] else bitsToByte (take 8 stream) # writeBytes (drop 8 stream))"
  by pat_completeness auto
termination
  by (relation "measure length") auto

declare writeBytes.simps [simp del]

text \<open>
  \<open>GifImage::writeOptimized\<close>, the part that writes the bits of one frame: blocks of at
  most 255 bytes, each after its size, and an empty block at the end.
\<close>

function writeBlocks :: "bool list \<Rightarrow> byte list" where
  "writeBlocks stream =
     (if stream = [] then []
      else
        (let bitsCurrentBlock = min (length stream) (255 * 8);
             blockSize = (bitsCurrentBlock + 7) div 8
         in of_nat blockSize # writeBytes (take bitsCurrentBlock stream)
              @ writeBlocks (drop bitsCurrentBlock stream)))"
  by pat_completeness auto
termination
  by (relation "measure length") auto

declare writeBlocks.simps [simp del]

definition writeOptimizedGif :: "bool list \<Rightarrow> byte list" where
  "writeOptimizedGif stream = writeBlocks stream @ [0]"

text \<open>\<open>Compress::writeOptimized\<close>, the part after the three bytes of the header.\<close>

definition writeOptimizedZ :: "bool list \<Rightarrow> byte list" where
  "writeOptimizedZ stream = writeBytes stream"

section \<open>Invariants used in the properties\<close>

text \<open>
  The bits that are left to read are the bits of the bytes not fetched yet and the bits in
  the bit buffer. The constructor establishes this, and reading keeps it.
\<close>

definition reader_inv :: "BinaryInputBuffer \<Rightarrow> bool" where
  "reader_inv b = (m_bitsLeft b = 8 * length (m_stream b) + m_bitBufferSize b)"

section \<open>The settings of the command line\<close>

text \<open>
  The settings of \<open>flexiGIF.cpp\<close> before any option is read (\<open>Alignment = 1\<close>,
  \<open>MinImprovement = 1\<close>, \<open>MinNonGreedy = 2\<close>, \<open>GifMaxToken = 20000\<close>); the minimum code
  size comes from the frame.
\<close>

definition defaultSettings :: "nat \<Rightarrow> OptimizationSettings" where
  "defaultSettings m =
     \<lparr>minCodeSize = m, startWithClearCode = True, verbose = False, greedy = True,
      minNonGreedyMatch = 2, minImprovement = 1, maxDictionary = 0, maxTokens = 20000,
      splitRuns = False, alignment = 1, readOnlyBest = False, avoidNonGreedyAgain = False\<rparr>"

section \<open>An encoder state for the example of the readme\<close>

text \<open>
  The stream \<open>a a a b b\<close> (\<open>a = 0\<close>, \<open>b = 1\<close>) and a dictionary with the strings
  \<open>aa = 6\<close>, \<open>ab = 7\<close>, \<open>aaa = 8\<close>, \<open>abb = 9\<close> besides the literals.
\<close>

definition readmeTrie :: LzwEncoder where
  "readmeTrie = (newLzwEncoder [0, 0, 0, 1, 1] True)
      \<lparr>m_dictionary := (\<lambda>c b. None)(0 := [0 \<mapsto> 6, 1 \<mapsto> 7], 6 := [0 \<mapsto> 8], 7 := [1 \<mapsto> 9]),
       m_dictSize := 10\<rparr>"

section \<open>Settings and states used in the examples\<close>

text \<open>
  The settings of \<open>flexiGIF.cpp\<close> for a .Z file: no clear code at the start, a minimum
  code size of 8, and \<open>LzwMaxToken = 100000\<close> tokens per block.
\<close>

definition compressSettings :: OptimizationSettings where
  "compressSettings = (defaultSettings 8)\<lparr>startWithClearCode := False, maxTokens := 100000\<rparr>"

text \<open>
  The variables of \<open>optimizePartial\<close> at the end of a .Z block with one token, once with
  a dictionary of 40000 codes (the closing code takes 16 bits) and once with a dictionary
  of 258 codes (it takes 9 bits).
\<close>

definition wideBlock :: partial_vars where
  "wideBlock =
     \<lparr>enc = (newLzwEncoder [65, 66] False)
              \<lparr>m_best := replicate 4 newBestBlock, m_dictSize := 40000\<rparr>,
      v_result = add [] 65 16, v_numBits = 16, v_numTokens = 1, v_numNonGreedyMatches = 0,
      v_matchLength = 0, v_codeSize = 16\<rparr>"

definition narrowBlock :: partial_vars where
  "narrowBlock =
     \<lparr>enc = (newLzwEncoder [65, 66] False)
              \<lparr>m_best := (replicate 4 newBestBlock)[1 := newBestBlock\<lparr>totalBits := 16\<rparr>],
               m_dictSize := 258\<rparr>,
      v_result = add [] 65 9, v_numBits = 9, v_numTokens = 1, v_numNonGreedyMatches = 0,
      v_matchLength = 0, v_codeSize = 9\<rparr>"

section \<open>The states of the decoder's loop\<close>

text \<open>
  \<open>decompress_reaches m M s s'\<close>: the main loop of \<open>decompress\<close>, started with the
  variables \<open>s\<close>, has the variables \<open>s'\<close> after some number of iterations (the last of
  which may have left the loop by \<open>break\<close>).
\<close>

inductive decompress_reaches ::
  "nat \<Rightarrow> nat \<Rightarrow> decompress_vars \<Rightarrow> decompress_vars \<Rightarrow> bool"
  for m :: nat and M :: nat
where
  start: "decompress_reaches m M s s"
| step: "decompress_reaches m M s s1 \<Longrightarrow>
         d_token s1 \<noteq> endOfStreamCode (m_isGif_dec (dec s1)) m \<Longrightarrow>
         decompress_body m M s1 = Inr (brk, s2) \<Longrightarrow>
         decompress_reaches m M s s2"

text \<open>
  What every iteration keeps: the flavour, a table that holds at least its initial
  entries and at most \<open>MaxToken\<close> entries, and a current token that is an entry of it
  or the end-of-stream code.
\<close>

definition decoder_inv :: "nat \<Rightarrow> nat \<Rightarrow> bool \<Rightarrow> decompress_vars \<Rightarrow> bool" where
  "decoder_inv m M isGif s =
     (m_isGif_dec (dec s) = isGif
      \<and> length (initialLut isGif m) \<le> length (d_lut s)
      \<and> length (d_lut s) \<le> MaxToken M
      \<and> (d_token s < length (d_lut s) \<or> d_token s = endOfStreamCode isGif m))"

text \<open>
  The variables of the decoder's loop for a GIF with a minimum code size of 2, after a
  first token 0, in front of a block of one byte that holds the token 1.
\<close>

definition afterFirstToken :: decompress_vars where
  "afterFirstToken =
     \<lparr>dec = \<lparr>m_input = newBinaryInputBuffer [1, 1, 0], m_bytes = [0], m_isGif_dec = True,
              m_codeSize = 2, m_bitsLeftInCurrentBlock = 0, m_numBitsOriginalLZW = 3\<rparr>,
      d_lut = initialLut True 2, d_codeSize = 2 + 1, d_prevToken = None, d_token = 0,
      d_numTokensBlock = 1\<rparr>"

section \<open>Properties\<close>

subsection \<open>Evaluation of the loops on numerals\<close>

lemma add_unfold:
  "add stream t n = (if n = 0 then stream else add (stream @ [odd t]) (t div 2) (n - 1))"
  by (cases n) simp_all

lemma replicate_unfold: "replicate n x = (if n = 0 then [] else x # replicate (n - 1) x)"
  by (cases n) simp_all

lemma decode_loop_unfold:
  "decode_loop l c n =
     (if n = 0 then Inr []
      else (case c of
              None \<Rightarrow> Inl OutOfBounds
            | Some c' \<Rightarrow>
                (if c' < length l then
                   (case decode_loop l (previous (l ! c')) (n - 1) of
                      Inl err \<Rightarrow> Inl err
                    | Inr bs \<Rightarrow> Inr (bs @ [last_ref (l ! c')]))
                 else Inl OutOfBounds)))"
  by (cases n) (auto split: option.splits sum.splits)

lemma skipGap_unfold:
  "skipGap inp cs n =
     (if n = 0 then Inr inp
      else (case getBits inp cs of
              Inl err \<Rightarrow> Inl err
            | Inr (unused, inp') \<Rightarrow> skipGap inp' cs (n - 1)))"
  by (cases n) (auto split: sum.splits)

lemmas num_unfolds =
  add_unfold [of _ _ "numeral n" for n] replicate_unfold [of "numeral n" for n]
  decode_loop_unfold [of _ _ "numeral n" for n] skipGap_unfold [of _ _ "numeral n" for n]

lemma and_7_mod_8: "(n::nat) AND 7 = n mod 8"
proof -
  have "n AND 7 = n AND mask 3" by (simp add: mask_eq_exp_minus_1)
  also have "\<dots> = take_bit 3 n" by (simp add: take_bit_eq_mask)
  also have "\<dots> = n mod 8" by (simp add: take_bit_eq_mod)
  finally show ?thesis .
qed

lemmas enc_simps =
  merge_def merge_loop.simps optimizePartial_def optimizePartial_loop.simps
  optimizePartial_body_def newMatch_def chooseMatch_def findMatch_def findMatch_loop.simps addCode_def
  addCode_loop.simps nextCodeSize_def isPowerOfTwo_def getMinBits_def getMinBits_loop.simps
  finishBlock_def costEvaluation_def closingBits_def bestAt_def newLzwEncoder_def newBestBlock_def
  lookahead_def nonGreedy_loop.simps runGuard_def allTheSame_loop.simps padToByte_def gapOf_def
  and_7_mod_8

lemmas dec_simps =
  decompress_def decompress_loop.simps decompress_body_def decompress_finish_def
  skipClearCodes.simps skipBytes.simps newCode_def resetDictionary_def decode_def
  getLzwBits_def getBits_def getByte_def peekBits_def peekBits_loop.simps removeBits_def
  getBufferedByte_def newBinaryInputBuffer_def getNumBitsLeft_def initialLut_def
  literalReference_def zeroReference_def clearCode_def endOfStreamCode_def MaxToken_def
  writeOptimizedGif_def writeOptimizedZ_def writeBlocks.simps writeBytes.simps getBytes_def
  upt_rec gapOf_def and_7_mod_8

subsection \<open>findMatch\<close>

lemma findMatch_loop_walk:
  assumes "len \<le> maxLength" and "f + (maxLength - len) \<le> length data"
  shows "\<exists>r. findMatch_loop data dict code f len maxLength = Inr r \<and> len \<le> r \<and> r \<le> maxLength
           \<and> walk dict code (take (r - len) (drop f data)) \<noteq> None
           \<and> (r < maxLength \<longrightarrow> walk dict code (take (r - len + 1) (drop f data)) = None)"
  using assms
proof (induction data dict code f len maxLength rule: findMatch_loop.induct)
  case (1 data dict code f len maxLength)
  show ?case
  proof (cases "len < maxLength")
    case False
    with "1.prems" show ?thesis
      by (simp add: findMatch_loop.simps)
  next
    case True
    with "1.prems" have f: "f < length data" by simp
    have dropf: "drop f data = data ! f # drop (f + 1) data"
      using f by (simp add: Cons_nth_drop_Suc)
    show ?thesis
    proof (cases "dict code (data ! f)")
      case None
      with True f show ?thesis
        by (simp add: findMatch_loop.simps dropf)
    next
      case (Some c)
      from True "1.prems"
      have p: "len + 1 \<le> maxLength" "f + 1 + (maxLength - (len + 1)) \<le> length data"
        by simp_all
      from "1.IH" [OF True f Some p]
      obtain r where r: "findMatch_loop data dict c (f + 1) (len + 1) maxLength = Inr r"
        "len + 1 \<le> r" "r \<le> maxLength"
        "walk dict c (take (r - (len + 1)) (drop (f + 1) data)) \<noteq> None"
        "r < maxLength \<longrightarrow> walk dict c (take (r - (len + 1) + 1) (drop (f + 1) data)) = None"
        by blast
      from r(2) have rl: "r - len = Suc (r - (len + 1))" by simp
      have "findMatch_loop data dict code f len maxLength = Inr r"
        using True f Some r(1) by (subst findMatch_loop.simps) simp
      moreover have "walk dict code (take (r - len) (drop f data)) \<noteq> None"
        using r(4) Some by (simp add: rl dropf)
      moreover have "r < maxLength \<longrightarrow> walk dict code (take (r - len + 1) (drop f data)) = None"
        using r(5) Some by (simp add: rl dropf)
      ultimately show ?thesis using r(2,3) by simp
    qed
  qed
qed

text \<open>
  Claim C7, as amended. For a call \<open>findMatch(from, maxLength)\<close> whose range
  \<open>[from, from + maxLength)\<close> lies inside the literal stream, with \<open>from\<close> inside the
  stream: the call returns a length \<open>r\<close> that is at most \<open>maxLength\<close>, and at least 1
  when \<open>maxLength\<close> is at least 1; the trie has a path from the code of the byte
  \<open>m_data[from]\<close> along the next \<open>r - 1\<close> bytes, and when \<open>r\<close> is less than
  \<open>maxLength\<close> the child for the byte after them is missing. With \<open>maxLength = 0\<close> the
  result is 0.
\<close>

theorem findMatch_walk:
  assumes "from < length (m_data e)" and "from + maxLength \<le> length (m_data e)"
  shows "\<exists>r. findMatch e from maxLength = Inr r \<and> r \<le> maxLength \<and> (1 \<le> maxLength \<longrightarrow> 1 \<le> r)
           \<and> walk (m_dictionary e) (unat (m_data e ! from))
                (take (r - 1) (drop (from + 1) (m_data e))) \<noteq> None
           \<and> (r < maxLength \<longrightarrow>
                walk (m_dictionary e) (unat (m_data e ! from))
                  (take r (drop (from + 1) (m_data e))) = None)"
proof (cases "1 \<le> maxLength")
  case False
  then have "maxLength = 0" by simp
  with assms show ?thesis
    by (simp add: findMatch_def findMatch_loop.simps)
next
  case True
  with assms have "from + 1 + (maxLength - 1) \<le> length (m_data e)" by simp
  from findMatch_loop_walk [OF True this, of "m_dictionary e" "unat (m_data e ! from)"]
  obtain r where r:
    "findMatch_loop (m_data e) (m_dictionary e) (unat (m_data e ! from)) (from + 1) 1 maxLength
       = Inr r"
    "1 \<le> r" "r \<le> maxLength"
    "walk (m_dictionary e) (unat (m_data e ! from))
       (take (r - 1) (drop (from + 1) (m_data e))) \<noteq> None"
    "r < maxLength \<longrightarrow>
       walk (m_dictionary e) (unat (m_data e ! from))
         (take (r - 1 + 1) (drop (from + 1) (m_data e))) = None"
    by blast
  with assms show ?thesis
    by (auto simp: findMatch_def)
qed

text \<open>
  A witness for C7: the stream \<open>0, 1, 0\<close> and a trie whose only child is code 6 for
  \<open>0, 1\<close>. The match at position 0 has length 2.
\<close>

theorem findMatch_walk_witness:
  "(0::nat) < length (m_data ((newLzwEncoder [0, 1, 0] True)
                       \<lparr>m_dictionary := (\<lambda>c b. None)(0 := [1 \<mapsto> 6])\<rparr>))
   \<and> findMatch ((newLzwEncoder [0, 1, 0] True)
                  \<lparr>m_dictionary := (\<lambda>c b. None)(0 := [1 \<mapsto> 6])\<rparr>) 0 3 = Inr 2"
  using findMatch_walk [of 0 "(newLzwEncoder [0, 1, 0] True)
                  \<lparr>m_dictionary := (\<lambda>c b. None)(0 := [1 \<mapsto> 6])\<rparr>" 3]
  by (simp add: newLzwEncoder_def findMatch_def findMatch_loop.simps)

text \<open>
  The counterexample to C7 as stated: position 0 is inside the stream, and a call with
  \<open>maxLength = 0\<close> returns 0, which is less than 1. The lookahead makes such a call
  (\<open>findMatch(i + matchLength, remaining - matchLength)\<close>) when the greedy match reaches
  the end of the block.
\<close>

theorem findMatch_zero_counterexample:
  "findMatch (newLzwEncoder [0, 1] True) 0 0 = Inr 0"
  by (simp add: findMatch_def newLzwEncoder_def findMatch_loop.simps)

subsection \<open>addCode\<close>

lemma addCode_loop_walk:
  assumes "i \<le> len" and "f + (len - i) \<le> length data"
    and "walk dict c0 (take (len - i) (drop f data)) = Some c"
  shows "addCode_loop data dict (Some c0) f i len = Inr (Some c, f + (len - i))"
  using assms
proof (induction "len - i" arbitrary: i f c0)
  case 0
  then show ?case by (simp add: addCode_loop.simps)
next
  case (Suc k)
  then have lt: "i < len" and f: "f < length data" by simp_all
  have dropf: "drop f data = data ! f # drop (f + 1) data"
    using f by (simp add: Cons_nth_drop_Suc)
  from Suc.hyps(2) have li: "len - i = Suc (len - (i + 1))" by simp
  from Suc.prems(3) obtain c1 where c1: "dict c0 (data ! f) = Some c1"
    and w: "walk dict c1 (take (len - (i + 1)) (drop (f + 1) data)) = Some c"
    by (auto simp: li dropf split: option.splits)
  from Suc.hyps(2) Suc.prems
  have "k = len - (i + 1)" "i + 1 \<le> len" "f + 1 + (len - (i + 1)) \<le> length data"
    by simp_all
  from Suc.hyps(1) [OF this w]
  have "addCode_loop data dict (Some c1) (f + 1) (i + 1) len
          = Inr (Some c, f + 1 + (len - (i + 1)))" .
  with lt f c1 show ?case
    by (subst addCode_loop.simps) (simp add: li)
qed

text \<open>
  Claim C2. A call \<open>addCode(from, len)\<close> of an encode session has \<open>len\<close> at least 1, its
  bytes inside the stream, and a path in the trie along them (\<open>findMatch\<close> has found
  it), ending in a code \<open>c\<close>. The call returns \<open>c\<close>. Every child entry that was set
  keeps its value; an entry changes only if it was empty, and then it is the entry of
  \<open>c\<close> under the byte \<open>m_data[from + len]\<close>, set to the old size of the dictionary.
  Whenever \<open>from + len\<close> is inside the stream and the size is below its cap the size
  grows by one, whether the entry was empty or not; otherwise nothing changes.
\<close>

theorem addCode_never_overwrites:
  assumes "1 \<le> len" and "from + len \<le> length (m_data e)"
    and "walk (m_dictionary e) (unat (m_data e ! from))
           (take (len - 1) (drop (from + 1) (m_data e))) = Some c"
  shows "\<exists>e'. addCode e from len = Inr (Some c, e')
           \<and> (\<forall>c' b child. m_dictionary e c' b = Some child \<longrightarrow> m_dictionary e' c' b = Some child)
           \<and> (\<forall>c' b. m_dictionary e' c' b \<noteq> m_dictionary e c' b \<longrightarrow>
                 m_dictionary e c' b = None \<and> m_dictionary e' c' b = Some (m_dictSize e)
                 \<and> c' = c \<and> b = m_data e ! (from + len))
           \<and> (from + len < length (m_data e) \<and> m_dictSize e < m_maxDictionary e \<longrightarrow>
                 m_dictSize e' = m_dictSize e + 1)
           \<and> (\<not> (from + len < length (m_data e) \<and> m_dictSize e < m_maxDictionary e) \<longrightarrow> e' = e)"
proof -
  from assms have lt: "from < length (m_data e)" by simp
  from assms have "from + 1 + (len - 1) \<le> length (m_data e)" by simp
  from addCode_loop_walk [OF assms(1) this assms(3)]
  have loop:
    "addCode_loop (m_data e) (m_dictionary e) (Some (unat (m_data e ! from))) (from + 1) 1 len
       = Inr (Some c, from + 1 + (len - 1))" .
  from assms(1) have eq: "from + 1 + (len - 1) = from + len" by simp
  show ?thesis
    unfolding addCode_def loop eq using lt by (auto simp: Let_def)
qed

text \<open>
  A witness for C2, where the counter runs ahead: the stream \<open>0, 1, 0, 1\<close>, the child of
  code 0 under byte 1 already set to 6, and the size 8. The call \<open>addCode(2, 1)\<close> leaves
  the child at 6 and moves the size to 9.
\<close>

theorem addCode_never_overwrites_witness:
  "(1::nat) \<le> 1
   \<and> walk (m_dictionary ((newLzwEncoder [0, 1, 0, 1] True)
              \<lparr>m_dictionary := (\<lambda>c b. None)(0 := [1 \<mapsto> 6]), m_dictSize := 8\<rparr>)) 0 [] = Some 0
   \<and> (\<exists>e'. addCode ((newLzwEncoder [0, 1, 0, 1] True)
              \<lparr>m_dictionary := (\<lambda>c b. None)(0 := [1 \<mapsto> 6]), m_dictSize := 8\<rparr>) 2 1
              = Inr (Some 0, e')
          \<and> m_dictionary e' 0 1 = Some 6 \<and> m_dictSize e' = 9)"
  using addCode_never_overwrites [of 1 2 "(newLzwEncoder [0, 1, 0, 1] True)
              \<lparr>m_dictionary := (\<lambda>c b. None)(0 := [1 \<mapsto> 6]), m_dictSize := 8\<rparr>" 0]
  by (simp add: newLzwEncoder_def addCode_def addCode_loop.simps)

subsection \<open>BinaryInputBuffer\<close>

lemma peekBits_loop_filled:
  "n \<le> m_bitBufferSize b \<Longrightarrow> peekBits_loop n b = Inr b"
  by (simp add: peekBits_loop.simps)

lemma peekBits_loop_result:
  "peekBits_loop n b = Inr b' \<Longrightarrow> n \<le> m_bitBufferSize b' \<and> m_bitsLeft b' = m_bitsLeft b"
proof (induction n b rule: peekBits_loop.induct)
  case (1 numBits b)
  show ?case
  proof (cases "m_bitBufferSize b < numBits")
    case False
    with "1.prems" show ?thesis by (simp add: peekBits_loop.simps)
  next
    case True
    with "1.prems" obtain byte b1 where g: "getBufferedByte b = Inr (byte, b1)"
      and r: "peekBits_loop numBits
               (b1\<lparr>m_bitBuffer := m_bitBuffer b OR push_bit (m_bitBufferSize b) (ucast byte),
                   m_bitBufferSize := m_bitBufferSize b + 8\<rparr>) = Inr b'"
      by (subst (asm) peekBits_loop.simps) (auto split: sum.splits)
    from g have "m_bitsLeft b1 = m_bitsLeft b"
      by (auto simp: getBufferedByte_def split: list.splits)
    with "1.IH" [OF True g refl r] show ?thesis by simp
  qed
qed

lemma peekBits_loop_total:
  "reader_inv b \<Longrightarrow> n \<le> m_bitsLeft b \<Longrightarrow> \<exists>b'. peekBits_loop n b = Inr b' \<and> reader_inv b'"
proof (induction n b rule: peekBits_loop.induct)
  case (1 numBits b)
  show ?case
  proof (cases "m_bitBufferSize b < numBits")
    case False
    with "1.prems" show ?thesis by (simp add: peekBits_loop.simps)
  next
    case True
    with "1.prems" have "m_stream b \<noteq> []"
      by (auto simp: reader_inv_def)
    then obtain x xs where xs: "m_stream b = x # xs" by (cases "m_stream b") auto
    let ?b1 = "b\<lparr>m_stream := xs, m_read := m_read b + 1\<rparr>"
    let ?b2 = "?b1\<lparr>m_bitBuffer := m_bitBuffer b OR push_bit (m_bitBufferSize b) (ucast x),
                   m_bitBufferSize := m_bitBufferSize b + 8\<rparr>"
    have g: "getBufferedByte b = Inr (x, ?b1)"
      by (simp add: getBufferedByte_def xs)
    have inv: "reader_inv ?b2" using "1.prems"(1) xs by (simp add: reader_inv_def)
    have le: "numBits \<le> m_bitsLeft ?b2" using "1.prems"(2) by simp
    from "1.IH" [OF True g refl inv le]
    obtain b' where "peekBits_loop numBits ?b2 = Inr b'" "reader_inv b'" by blast
    with True g show ?thesis
      by (subst peekBits_loop.simps) simp
  qed
qed

lemma reader_inv_new: "reader_inv (newBinaryInputBuffer file)"
  by (simp add: reader_inv_def newBinaryInputBuffer_def)

lemma reader_inv_getBits:
  assumes "reader_inv b" and "getBits b n = Inr (v, b')"
  shows "reader_inv b'"
proof -
  from assms(2) obtain b1 where p: "peekBits b n = Inr (v, b1)" and r: "removeBits b1 n = Inr b'"
    by (auto simp: getBits_def split: sum.splits)
  from p have le: "n \<le> m_bitsLeft b" and l: "peekBits_loop n b = Inr b1"
    by (auto simp: peekBits_def split: if_splits sum.splits)
  from peekBits_loop_total [OF assms(1) le] l have i1: "reader_inv b1" by simp
  from peekBits_loop_result [OF l] have f: "n \<le> m_bitBufferSize b1" "m_bitsLeft b1 = m_bitsLeft b"
    by simp_all
  from r f le i1 show ?thesis
    by (auto simp: removeBits_def reader_inv_def)
qed

text \<open>
  Claim C9. For a reader in a state that satisfies the invariant, and \<open>n\<close> at most 16
  and at most the number of bits left: \<open>peekBits(n)\<close> returns a value; a second
  \<open>peekBits(n)\<close> right after it returns the same value and changes nothing; the number
  of bits left is the same after the peeks; and \<open>getBits(n)\<close> returns the value that
  \<open>peekBits(n)\<close> returns and leaves \<open>n\<close> bits fewer.
\<close>

theorem peekBits_does_not_consume:
  assumes "n \<le> 16" and "n \<le> m_bitsLeft b" and "reader_inv b"
  shows "\<exists>v b'. peekBits b n = Inr (v, b') \<and> peekBits b' n = Inr (v, b')
           \<and> m_bitsLeft b' = m_bitsLeft b
           \<and> (\<exists>b''. getBits b n = Inr (v, b'') \<and> m_bitsLeft b'' = m_bitsLeft b - n)"
proof -
  from peekBits_loop_total [OF assms(3,2)]
  obtain b' where l: "peekBits_loop n b = Inr b'" by blast
  from peekBits_loop_result [OF l]
  have f: "n \<le> m_bitBufferSize b'" and bl: "m_bitsLeft b' = m_bitsLeft b" by simp_all
  let ?v = "unat (m_bitBuffer b' AND (push_bit n 1 - 1))"
  have p1: "peekBits b n = Inr (?v, b')"
    using assms(1,2) l by (simp add: peekBits_def)
  have p2: "peekBits b' n = Inr (?v, b')"
    using assms(1,2) bl peekBits_loop_filled [OF f] by (simp add: peekBits_def)
  have r: "removeBits b' n = Inr (b'\<lparr>m_bitBuffer := drop_bit n (m_bitBuffer b'),
                  m_bitBufferSize := m_bitBufferSize b' - n,
                  m_bitsLeft := m_bitsLeft b' - n\<rparr>)"
    using f assms(2) bl by (simp add: removeBits_def)
  have g: "getBits b n = Inr (?v, b'\<lparr>m_bitBuffer := drop_bit n (m_bitBuffer b'),
                  m_bitBufferSize := m_bitBufferSize b' - n,
                  m_bitsLeft := m_bitsLeft b' - n\<rparr>)"
    by (simp add: getBits_def p1 r)
  show ?thesis
    using p1 p2 bl g by simp
qed

text \<open>
  A witness for C9: a file of the two bytes \<open>0xA5, 0x01\<close> and \<open>n = 9\<close>; the nine lowest
  bits are 421, and 7 of the 16 bits are left after \<open>getBits\<close>.
\<close>

theorem peekBits_does_not_consume_witness:
  "(9::nat) \<le> 16 \<and> 9 \<le> m_bitsLeft (newBinaryInputBuffer [0xA5, 0x01])
   \<and> reader_inv (newBinaryInputBuffer [0xA5, 0x01])
   \<and> (\<exists>b'. peekBits (newBinaryInputBuffer [0xA5, 0x01]) 9 = Inr (421, b')
          \<and> peekBits b' 9 = Inr (421, b') \<and> m_bitsLeft b' = 16
          \<and> (\<exists>b''. getBits (newBinaryInputBuffer [0xA5, 0x01]) 9 = Inr (421, b'')
                 \<and> m_bitsLeft b'' = 7))"
  using peekBits_does_not_consume [of 9 "newBinaryInputBuffer [0xA5, 0x01]"]
  by (simp add: reader_inv_def newBinaryInputBuffer_def peekBits_def peekBits_loop.simps
      getBufferedByte_def getBits_def removeBits_def)

subsection \<open>The non-greedy choice\<close>

lemma nonGreedy_loop_inv:
  assumes "nonGreedy_loop e i remaining atL k best choice = Inr (best', choice')"
  shows "((best' = best \<and> choice' = choice)
            \<or> (1 \<le> choice' \<and> choice' \<le> k
                \<and> (\<exists>nxt. findMatch e (i + choice') (remaining - choice') = Inr nxt
                       \<and> choice' + nxt = best' \<and> atL \<le> best' \<and> best < best')))
         \<and> ((\<forall>s nxt. 1 \<le> s \<and> s \<le> k \<and> findMatch e (i + s) (remaining - s) = Inr nxt
                 \<longrightarrow> \<not> (atL \<le> s + nxt \<and> best < s + nxt))
              \<longrightarrow> best' = best \<and> choice' = choice)
         \<and> (\<forall>s nxt. 1 \<le> s \<and> s \<le> k \<and> findMatch e (i + s) (remaining - s) = Inr nxt
                 \<and> atL \<le> s + nxt \<and> best < s + nxt
              \<longrightarrow> s + nxt \<le> best' \<and> choice' \<le> k \<and> 1 \<le> choice')"
  using assms
proof (induction e i remaining atL k best choice rule: nonGreedy_loop.induct)
  case (1 e i remaining atL shorter best choice)
  show ?case
  proof (cases "shorter > 0")
    case False
    with "1.prems" show ?thesis by (simp add: nonGreedy_loop.simps)
  next
    case True
    with "1.prems" obtain nxt where fm: "findMatch e (i + shorter) (remaining - shorter) = Inr nxt"
      by (subst (asm) nonGreedy_loop.simps) (auto split: sum.splits)
    show ?thesis
    proof (cases "atL \<le> shorter + nxt \<and> best < shorter + nxt")
      case better: True
      with True fm "1.prems"
      have rec: "nonGreedy_loop e i remaining atL (shorter - 1) (shorter + nxt) shorter = Inr (best', choice')"
        by (subst (asm) nonGreedy_loop.simps) (simp add: Let_def)
      from "1.IH"(1) [OF True fm refl _ rec] better
      have ih: "((best' = shorter + nxt \<and> choice' = shorter)
            \<or> (1 \<le> choice' \<and> choice' \<le> shorter - 1
                \<and> (\<exists>nxt'. findMatch e (i + choice') (remaining - choice') = Inr nxt'
                       \<and> choice' + nxt' = best' \<and> atL \<le> best' \<and> shorter + nxt < best')))"
        and ih3: "(\<forall>s nxt'. 1 \<le> s \<and> s \<le> shorter - 1 \<and> findMatch e (i + s) (remaining - s) = Inr nxt'
                 \<and> atL \<le> s + nxt' \<and> shorter + nxt < s + nxt'
              \<longrightarrow> s + nxt' \<le> best' \<and> choice' \<le> shorter - 1 \<and> 1 \<le> choice')"
        by simp_all
      from ih have ge: "shorter + nxt \<le> best'" by auto
      from ih have c1: "1 \<le> choice' \<and> choice' \<le> shorter" using True by auto
      have part1: "(1 \<le> choice' \<and> choice' \<le> shorter
                \<and> (\<exists>nxt'. findMatch e (i + choice') (remaining - choice') = Inr nxt'
                       \<and> choice' + nxt' = best' \<and> atL \<le> best' \<and> best < best'))"
        using ih better fm True by auto
      have part2: "\<not> (\<forall>s nxt'. 1 \<le> s \<and> s \<le> shorter \<and> findMatch e (i + s) (remaining - s) = Inr nxt'
                 \<longrightarrow> \<not> (atL \<le> s + nxt' \<and> best < s + nxt'))"
      proof
        assume a: "\<forall>s nxt'. 1 \<le> s \<and> s \<le> shorter \<and> findMatch e (i + s) (remaining - s) = Inr nxt'
                 \<longrightarrow> \<not> (atL \<le> s + nxt' \<and> best < s + nxt')"
        from a [THEN spec, THEN spec, of shorter nxt] fm True better show False by simp
      qed
      have part3: "(\<forall>s nxt'. 1 \<le> s \<and> s \<le> shorter \<and> findMatch e (i + s) (remaining - s) = Inr nxt'
                 \<and> atL \<le> s + nxt' \<and> best < s + nxt'
              \<longrightarrow> s + nxt' \<le> best' \<and> choice' \<le> shorter \<and> 1 \<le> choice')"
      proof (intro allI impI)
        fix s nxt'
        assume a: "1 \<le> s \<and> s \<le> shorter \<and> findMatch e (i + s) (remaining - s) = Inr nxt'
                 \<and> atL \<le> s + nxt' \<and> best < s + nxt'"
        show "s + nxt' \<le> best' \<and> choice' \<le> shorter \<and> 1 \<le> choice'"
        proof (cases "s = shorter")
          case True
          with a fm have "nxt' = nxt" by simp
          with True ge c1 show ?thesis by simp
        next
          case False
          with a have s: "s \<le> shorter - 1" by auto
          show ?thesis
          proof (cases "shorter + nxt < s + nxt'")
            case True
            with ih3 a s have "s + nxt' \<le> best'" by blast
            with c1 show ?thesis by simp
          next
            case False
            with ge c1 show ?thesis by simp
          qed
        qed
      qed
      from part1 part2 part3 show ?thesis by blast
    next
      case worse: False
      with True fm "1.prems"
      have rec: "nonGreedy_loop e i remaining atL (shorter - 1) best choice = Inr (best', choice')"
        by (subst (asm) nonGreedy_loop.simps) (auto simp: Let_def)
      from "1.IH"(2) [OF True fm refl _ rec] worse
      have ih1: "((best' = best \<and> choice' = choice)
            \<or> (1 \<le> choice' \<and> choice' \<le> shorter - 1
                \<and> (\<exists>nxt. findMatch e (i + choice') (remaining - choice') = Inr nxt
                       \<and> choice' + nxt = best' \<and> atL \<le> best' \<and> best < best')))"
        and ih2: "((\<forall>s nxt. 1 \<le> s \<and> s \<le> shorter - 1 \<and> findMatch e (i + s) (remaining - s) = Inr nxt
                 \<longrightarrow> \<not> (atL \<le> s + nxt \<and> best < s + nxt))
              \<longrightarrow> best' = best \<and> choice' = choice)"
        and ih3: "(\<forall>s nxt. 1 \<le> s \<and> s \<le> shorter - 1 \<and> findMatch e (i + s) (remaining - s) = Inr nxt
                 \<and> atL \<le> s + nxt \<and> best < s + nxt
              \<longrightarrow> s + nxt \<le> best' \<and> choice' \<le> shorter - 1 \<and> 1 \<le> choice')"
        by blast+
      have part1: "((best' = best \<and> choice' = choice)
            \<or> (1 \<le> choice' \<and> choice' \<le> shorter
                \<and> (\<exists>nxt. findMatch e (i + choice') (remaining - choice') = Inr nxt
                       \<and> choice' + nxt = best' \<and> atL \<le> best' \<and> best < best')))"
        using ih1 by auto
      have part2: "((\<forall>s nxt. 1 \<le> s \<and> s \<le> shorter \<and> findMatch e (i + s) (remaining - s) = Inr nxt
                 \<longrightarrow> \<not> (atL \<le> s + nxt \<and> best < s + nxt))
              \<longrightarrow> best' = best \<and> choice' = choice)"
      proof
        assume a: "\<forall>s nxt. 1 \<le> s \<and> s \<le> shorter \<and> findMatch e (i + s) (remaining - s) = Inr nxt
                 \<longrightarrow> \<not> (atL \<le> s + nxt \<and> best < s + nxt)"
        have "\<forall>s nxt. 1 \<le> s \<and> s \<le> shorter - 1 \<and> findMatch e (i + s) (remaining - s) = Inr nxt
                 \<longrightarrow> \<not> (atL \<le> s + nxt \<and> best < s + nxt)"
        proof (intro allI impI)
          fix s nxt
          assume "1 \<le> s \<and> s \<le> shorter - 1 \<and> findMatch e (i + s) (remaining - s) = Inr nxt"
          then have "1 \<le> s \<and> s \<le> shorter \<and> findMatch e (i + s) (remaining - s) = Inr nxt" by auto
          with a show "\<not> (atL \<le> s + nxt \<and> best < s + nxt)" by blast
        qed
        with ih2 show "best' = best \<and> choice' = choice" by blast
      qed
      have part3: "(\<forall>s nxt'. 1 \<le> s \<and> s \<le> shorter \<and> findMatch e (i + s) (remaining - s) = Inr nxt'
                 \<and> atL \<le> s + nxt' \<and> best < s + nxt'
              \<longrightarrow> s + nxt' \<le> best' \<and> choice' \<le> shorter \<and> 1 \<le> choice')"
      proof (intro allI impI)
        fix s nxt'
        assume a: "1 \<le> s \<and> s \<le> shorter \<and> findMatch e (i + s) (remaining - s) = Inr nxt'
                 \<and> atL \<le> s + nxt' \<and> best < s + nxt'"
        have "s \<noteq> shorter" using a fm worse by auto
        with a have "1 \<le> s \<and> s \<le> shorter - 1 \<and> findMatch e (i + s) (remaining - s) = Inr nxt'
                 \<and> atL \<le> s + nxt' \<and> best < s + nxt'" by auto
        with ih3 have "s + nxt' \<le> best' \<and> choice' \<le> shorter - 1 \<and> 1 \<le> choice'" by blast
        then show "s + nxt' \<le> best' \<and> choice' \<le> shorter \<and> 1 \<le> choice'" by auto
      qed
      from part1 part2 part3 show ?thesis by blast
    qed
  qed
qed


text \<open>
  Claim C3. Where the lookahead runs at position \<open>i\<close> with the greedy match length \<open>L\<close>
  and the second greedy match length \<open>second\<close> (so the pair is \<open>L + second\<close>), the
  length it chooses is \<open>L\<close> or a shorter length \<open>s\<close> from 1 to \<open>L - 1\<close> for which
  \<open>s + findMatch(i + s, remaining - s)\<close> is at least the pair plus \<open>minImprovement\<close> and
  greater than the pair. A shorter length is chosen exactly when some shorter length
  passes both tests; otherwise \<open>L\<close> is kept.
\<close>

theorem lookahead_rule:
  assumes "lookahead e opt i remaining L = Inr choice"
    and "findMatch e (i + L) (remaining - L) = Inr second"
  shows "(choice = L
            \<or> (1 \<le> choice \<and> choice < L
                \<and> (\<exists>nxt. findMatch e (i + choice) (remaining - choice) = Inr nxt
                       \<and> L + second + minImprovement opt \<le> choice + nxt
                       \<and> L + second < choice + nxt)))
         \<and> (choice < L \<longleftrightarrow>
               (\<exists>s nxt. 1 \<le> s \<and> s < L \<and> findMatch e (i + s) (remaining - s) = Inr nxt
                   \<and> L + second + minImprovement opt \<le> s + nxt \<and> L + second < s + nxt))"
proof -
  from assms obtain best' where loop:
    "nonGreedy_loop e i remaining (L + second + minImprovement opt) (L - 1) (L + second) L
       = Inr (best', choice)"
    by (auto simp: lookahead_def Let_def split: sum.splits)
  note inv = nonGreedy_loop_inv [OF loop]
  from inv have p1: "(best' = L + second \<and> choice = L)
            \<or> (1 \<le> choice \<and> choice \<le> L - 1
                \<and> (\<exists>nxt. findMatch e (i + choice) (remaining - choice) = Inr nxt
                       \<and> choice + nxt = best' \<and> L + second + minImprovement opt \<le> best'
                       \<and> L + second < best'))"
    by blast
  from inv have p3: "\<forall>s nxt. 1 \<le> s \<and> s \<le> L - 1 \<and> findMatch e (i + s) (remaining - s) = Inr nxt
                 \<and> L + second + minImprovement opt \<le> s + nxt \<and> L + second < s + nxt
              \<longrightarrow> s + nxt \<le> best' \<and> choice \<le> L - 1 \<and> 1 \<le> choice"
    by blast
  have a: "choice = L
            \<or> (1 \<le> choice \<and> choice < L
                \<and> (\<exists>nxt. findMatch e (i + choice) (remaining - choice) = Inr nxt
                       \<and> L + second + minImprovement opt \<le> choice + nxt
                       \<and> L + second < choice + nxt))"
    using p1 by auto
  have b: "choice < L \<Longrightarrow>
               (\<exists>s nxt. 1 \<le> s \<and> s < L \<and> findMatch e (i + s) (remaining - s) = Inr nxt
                   \<and> L + second + minImprovement opt \<le> s + nxt \<and> L + second < s + nxt)"
    using a by auto
  have c: "choice < L" if "\<exists>s nxt. 1 \<le> s \<and> s < L \<and> findMatch e (i + s) (remaining - s) = Inr nxt
                   \<and> L + second + minImprovement opt \<le> s + nxt \<and> L + second < s + nxt"
  proof -
    from that obtain s nxt where s: "1 \<le> s" "s < L" "findMatch e (i + s) (remaining - s) = Inr nxt"
      "L + second + minImprovement opt \<le> s + nxt" "L + second < s + nxt" by blast
    then have "1 \<le> s \<and> s \<le> L - 1 \<and> findMatch e (i + s) (remaining - s) = Inr nxt
                 \<and> L + second + minImprovement opt \<le> s + nxt \<and> L + second < s + nxt" by auto
    with p3 have "choice \<le> L - 1 \<and> 1 \<le> choice" by blast
    then show ?thesis by auto
  qed
  from a b c show ?thesis by blast
qed

text \<open>
  A witness for C3: the example of the readme. The greedy match \<open>aaa\<close> is followed by
  \<open>b\<close> (pair 4); the shorter match \<open>aa\<close> is followed by \<open>abb\<close> (sum 5), and length 2 is
  chosen.
\<close>

theorem lookahead_rule_witness:
  "lookahead readmeTrie (defaultSettings 2) 0 5 3 = Inr 2
   \<and> findMatch readmeTrie (0 + 3) (5 - 3) = Inr 1
   \<and> (\<exists>nxt. findMatch readmeTrie (0 + 2) (5 - 2) = Inr nxt
         \<and> 3 + 1 + minImprovement (defaultSettings 2) \<le> 2 + nxt \<and> 3 + 1 < 2 + nxt)"
  using lookahead_rule [of readmeTrie "defaultSettings 2" 0 5 3 2 1]
  by (simp add: readmeTrie_def defaultSettings_def enc_simps)

subsection \<open>What optimizePartial leaves unchanged\<close>

lemma addCode_frame:
  assumes "addCode e i l = Inr (code, e')"
  shows "m_isGif e' = m_isGif e \<and> m_data e' = m_data e \<and> m_best e' = m_best e
         \<and> m_maxDictionary e' = m_maxDictionary e \<and> m_maxCodeLength e' = m_maxCodeLength e"
  using assms
  by (auto simp: addCode_def Let_def split: if_splits sum.splits prod.splits option.splits)

lemma costEvaluation_shape:
  assumes "costEvaluation opt fa i nb v = Inr e'"
  shows "\<exists>bs. e' = (enc v)\<lparr>m_best := bs\<rparr>"
proof -
  have triv: "\<exists>bs. enc v = (enc v)\<lparr>m_best := bs\<rparr>"
    by (rule exI [of _ "m_best (enc v)"]) simp
  from assms show ?thesis
    unfolding costEvaluation_def Let_def
    by (auto split: if_splits sum.splits intro: triv)
qed

lemma costEvaluation_frame:
  assumes "costEvaluation opt fa i nb v = Inr e'"
  shows "m_isGif e' = m_isGif (enc v) \<and> m_data e' = m_data (enc v)
         \<and> m_dictSize e' = m_dictSize (enc v) \<and> m_dictionary e' = m_dictionary (enc v)
         \<and> m_maxDictionary e' = m_maxDictionary (enc v)
         \<and> m_maxCodeLength e' = m_maxCodeLength (enc v)"
  using costEvaluation_shape [OF assms] by auto

lemma newMatch_frame:
  assumes "newMatch opt emit frm len i v = Inr (brk, v')"
  shows "m_isGif (enc v') = m_isGif (enc v) \<and> m_data (enc v') = m_data (enc v)"
proof (cases "brk")
  case True
  with assms have "v' = v"
    by (auto simp: newMatch_def Let_def split: if_splits sum.splits prod.splits)
  then show ?thesis by simp
next
  case False
  with assms obtain l c e' where a: "addCode (enc v) i l = Inr (c, e')" and "enc v' = e'"
    by (auto simp: newMatch_def Let_def split: if_splits sum.splits prod.splits)
  with addCode_frame [OF a] show ?thesis by simp
qed

lemma optimizePartial_body_frame:
  assumes "optimizePartial_body opt emit frm len fa i v = Inr (brk, v')"
  shows "m_isGif (enc v') = m_isGif (enc v) \<and> m_data (enc v') = m_data (enc v)"
proof -
  from assms obtain b1 v1 where
    f: "(if v_matchLength v = 0 then newMatch opt emit frm len i v else Inr (False, v))
          = Inr (b1, v1)"
    by (auto simp: optimizePartial_body_def Let_def split: sum.splits)
  have fr1: "m_isGif (enc v1) = m_isGif (enc v) \<and> m_data (enc v1) = m_data (enc v)"
    using f newMatch_frame [of opt emit frm len i v b1 v1] by (auto split: if_splits)
  show ?thesis
  proof (cases b1)
    case True
    with assms f have "v' = v1"
      by (auto simp: optimizePartial_body_def Let_def)
    with fr1 show ?thesis by simp
  next
    case False
    with assms f obtain e2 where
      c: "costEvaluation opt fa i (i - frm + 1) (v1\<lparr>v_matchLength := v_matchLength v1 - 1\<rparr>)
            = Inr e2"
      and v': "v' = v1\<lparr>v_matchLength := v_matchLength v1 - 1, enc := e2\<rparr>"
      by (auto simp: optimizePartial_body_def Let_def split: sum.splits)
    from costEvaluation_frame [OF c] fr1 v' show ?thesis by simp
  qed
qed

lemma optimizePartial_loop_frame:
  assumes "optimizePartial_loop opt emit frm len fa lastPos i v = Inr v'"
  shows "m_isGif (enc v') = m_isGif (enc v) \<and> m_data (enc v') = m_data (enc v)"
  using assms
proof (induction opt emit frm len fa lastPos i v rule: optimizePartial_loop.induct)
  case (1 opt emit frm len fa lastPos i v)
  show ?case
  proof (cases "i \<le> lastPos")
    case False
    with "1.prems" show ?thesis by (simp add: optimizePartial_loop.simps)
  next
    case True
    with "1.prems" obtain brk v1 where b: "optimizePartial_body opt emit frm len fa i v = Inr (brk, v1)"
      by (subst (asm) optimizePartial_loop.simps) (auto split: sum.splits)
    note fr = optimizePartial_body_frame [OF b]
    show ?thesis
    proof (cases brk)
      case True
      with \<open>i \<le> lastPos\<close> b "1.prems" have "v' = v1"
        by (subst (asm) optimizePartial_loop.simps) simp
      with fr show ?thesis by simp
    next
      case False
      with \<open>i \<le> lastPos\<close> b "1.prems"
      have r: "optimizePartial_loop opt emit frm len fa lastPos (i + 1) v1 = Inr v'"
        by (subst (asm) optimizePartial_loop.simps) simp
      from False have bf: "brk = False" by simp
      from "1.IH" [OF \<open>i \<le> lastPos\<close> b refl bf r] fr show ?thesis
        by simp
    qed
  qed
qed

lemma optimizePartial_emit:
  assumes "optimizePartial e from maxLength True isFinal opt = Inr (stream, e')"
  shows "\<exists>v opt'. finishBlock opt' isFinal v = Inr stream \<and> enc v = e'
           \<and> minCodeSize opt' = minCodeSize opt \<and> m_isGif e' = m_isGif e"
proof -
  let ?opt = "(if alignment opt = 0 then opt\<lparr>alignment := 1\<rparr> else opt)"
  from assms obtain v0 fa lastPos len v where
    l: "optimizePartial_loop ?opt True from len fa lastPos from v0 = Inr v"
    and v0: "m_isGif (enc v0) = m_isGif e"
    and f: "finishBlock ?opt isFinal v = Inr stream" and e': "e' = enc v"
    by (auto simp: optimizePartial_def Let_def split: if_splits sum.splits bool.splits)
  from optimizePartial_loop_frame [OF l] v0 have "m_isGif (enc v) = m_isGif e" by simp
  with f e' show ?thesis
    by (intro exI [of _ v] exI [of _ ?opt]) simp
qed

subsection \<open>The end of a block\<close>

lemma fill_to_8: "(n + (8 - n mod 8) mod 8) mod 8 = (0::nat)"
proof (cases "n mod 8 = 0")
  case True
  then show ?thesis by simp
next
  case False
  define d where "d = n div 8"
  define r where "r = n mod 8"
  have n: "n = 8 * d + r" and r: "r < 8" "0 < r"
    using False by (simp_all add: d_def r_def)
  have "n + (8 - n mod 8) mod 8 = n + (8 - r)"
    using r by (simp add: r_def)
  also have "\<dots> = 8 * d + r + (8 - r)" using n by simp
  also have "\<dots> = 8 * (d + 1)" using r by simp
  finally show ?thesis by simp
qed

lemma gapOf_mod: "gapOf n = (8 - n mod 8) mod 8"
  by (simp add: gapOf_def and_7_mod_8 Let_def)

lemma gapOf_fills: "(n + gapOf n) mod 8 = 0"
  unfolding gapOf_mod by (rule fill_to_8)

lemma padToByte_aligned: "length (padToByte s) mod 8 = 0"
  unfolding padToByte_def length_append length_replicate by (rule fill_to_8)

lemmas ex_simps = defaultSettings_def compressSettings_def wideBlock_def narrowBlock_def

lemma finishBlock_restart:
  assumes "\<not> m_isGif (enc v)" and "getMinBits (m_dictSize (enc v) - 1) \<noteq> 16"
  shows "finishBlock opt False v
           = Inl (Thrown ''flexiGIF currently only supports restarts with code size = 16'')"
  using assms by (simp add: finishBlock_def Let_def)

lemma costEvaluation_restart:
  assumes "\<not> m_isGif (enc v)" and "i + 1 \<noteq> length (m_data (enc v))" and "v_codeSize v < 16"
  shows "costEvaluation opt fa i nb v = Inr (enc v)
           \<or> costEvaluation opt fa i nb v = Inl OutOfBounds"
  using assms by (auto simp: costEvaluation_def bestAt_def Let_def)

text \<open>
  Claim C4, as amended. For the .Z format, a block that is not the final one ends, when
  its closing code takes 16 bits, with the clear code, then zero bits up to the next byte
  boundary, then \<open>16 * gap\<close> more zero bits, where \<open>gap\<close> fills the tokens of the block
  (the clear code included) up to a multiple of eight; with any other width of the
  closing code the encoder throws. The final block ends with zero bits up to the next
  byte boundary, without a clear code and without the gap.
\<close>

theorem finishBlock_Z:
  assumes "\<not> m_isGif (enc v)"
  shows "finishBlock opt False v =
           (if getMinBits (m_dictSize (enc v) - 1) = 16
            then Inr (padToByte (add (v_result v) (2 ^ minCodeSize opt) 16)
                        @ replicate (16 * gapOf (v_numTokens v + 1)) False)
            else Inl (Thrown ''flexiGIF currently only supports restarts with code size = 16''))
         \<and> finishBlock opt True v = Inr (padToByte (v_result v))
         \<and> (v_numTokens v + 1 + gapOf (v_numTokens v + 1)) mod 8 = 0
         \<and> padToByte (v_result v)
              = v_result v @ replicate ((8 - length (v_result v) mod 8) mod 8) False
         \<and> length (padToByte (v_result v)) mod 8 = 0"
proof -
  have z: "8 * (16 * g div 8) = 16 * g" for g :: nat by simp
  have a: "finishBlock opt False v =
           (if getMinBits (m_dictSize (enc v) - 1) = 16
            then Inr (padToByte (add (v_result v) (2 ^ minCodeSize opt) 16)
                        @ replicate (16 * gapOf (v_numTokens v + 1)) False)
            else Inl (Thrown ''flexiGIF currently only supports restarts with code size = 16''))"
    using assms by (simp add: finishBlock_def Let_def z)
  have b: "finishBlock opt True v = Inr (padToByte (v_result v))"
    using assms by (simp add: finishBlock_def Let_def)
  have c: "padToByte (v_result v)
              = v_result v @ replicate ((8 - length (v_result v) mod 8) mod 8) False"
    by (simp add: padToByte_def)
  from a b c gapOf_fills [of "v_numTokens v + 1"] padToByte_aligned [of "v_result v"]
  show ?thesis by blast
qed


text \<open>
  A witness for C4: a block of one token of 16 bits with a dictionary of 40000 codes. The
  block that is not final gets the clear code 256 in 16 bits and \<open>16 * 6\<close> zero bits;
  the final block gets nothing, its 16 bits end at a byte boundary.
\<close>

theorem finishBlock_Z_witness:
  "\<not> m_isGif (enc wideBlock)
   \<and> finishBlock compressSettings False wideBlock
       = Inr (add (add [] 65 16) 256 16 @ replicate 96 False)
   \<and> finishBlock compressSettings True wideBlock = Inr (add [] 65 16)"
  using finishBlock_Z [of wideBlock compressSettings]
  by (simp add: ex_simps enc_simps num_unfolds)

text \<open>
  The counterexample to C4 as stated: a .Z stream of the single byte 65 is one final
  block; its token of 9 bits is followed by 7 zero bits up to the byte boundary.
\<close>

theorem final_segment_padded_counterexample:
  "map_sum id fst (merge (newLzwEncoder [65] False) [1] compressSettings)
     = Inr (add [] 65 9 @ replicate 7 False)"
  by (simp add: ex_simps enc_simps num_unfolds)

text \<open>
  Claim C5. For the .Z format: at a byte that is not the last one of the stream the cost
  evaluation leaves \<open>m_best\<close> as it is while the code size is below 16; closing a block
  that is not final with a closing code of another width than 16 bits throws; and
  \<open>optimizePartial\<close> returns a bit stream for a block that is not final only when the
  closing code takes 16 bits.
\<close>

theorem restart_width_16:
  assumes "\<not> m_isGif (enc v)" and "\<not> m_isGif e"
  shows "(i + 1 \<noteq> length (m_data (enc v)) \<and> v_codeSize v < 16 \<longrightarrow>
            costEvaluation opt fa i nb v = Inr (enc v)
              \<or> costEvaluation opt fa i nb v = Inl OutOfBounds)
         \<and> (getMinBits (m_dictSize (enc v) - 1) \<noteq> 16 \<longrightarrow>
              finishBlock opt False v
                = Inl (Thrown ''flexiGIF currently only supports restarts with code size = 16''))
         \<and> (\<forall>stream e'. optimizePartial e frm maxLength True False opt = Inr (stream, e') \<longrightarrow>
                getMinBits (m_dictSize e' - 1) = 16)"
proof -
  have c: "getMinBits (m_dictSize e' - 1) = 16"
    if "optimizePartial e frm maxLength True False opt = Inr (stream, e')" for stream e'
  proof (rule ccontr)
    assume n: "getMinBits (m_dictSize e' - 1) \<noteq> 16"
    from optimizePartial_emit [OF that] obtain v' opt' where
      f: "finishBlock opt' False v' = Inr stream" and e': "enc v' = e'" "m_isGif e' = m_isGif e"
      by blast
    from e' assms(2) n have "\<not> m_isGif (enc v')" "getMinBits (m_dictSize (enc v') - 1) \<noteq> 16"
      by simp_all
    from finishBlock_restart [OF this] f show False by simp
  qed
  from costEvaluation_restart [of v i opt fa nb] finishBlock_restart [of v opt] assms(1) c
  show ?thesis by blast
qed

text \<open>
  A witness for C5: the .Z stream \<open>65, 66\<close> with a restart after the first byte. The code
  size is 9: the cost evaluation records nothing, closing the block throws, and so does
  \<open>merge\<close>.
\<close>

theorem restart_width_16_witness:
  "\<not> m_isGif (enc narrowBlock) \<and> \<not> m_isGif (newLzwEncoder [65, 66] False)
   \<and> costEvaluation compressSettings 0 0 1 narrowBlock = Inr (enc narrowBlock)
   \<and> finishBlock compressSettings False narrowBlock
       = Inl (Thrown ''flexiGIF currently only supports restarts with code size = 16'')
   \<and> merge (newLzwEncoder [65, 66] False) [1] compressSettings
       = Inl (Thrown ''flexiGIF currently only supports restarts with code size = 16'')"
  using restart_width_16 [of narrowBlock "newLzwEncoder [65, 66] False" 0 compressSettings 0 1 0 0]
  by (simp add: ex_simps enc_simps num_unfolds)

subsection \<open>merge without restarts\<close>

text \<open>
  Claim C8, as amended. \<open>merge\<close> with an empty list of restarts returns normally: the
  bit stream is the clear code of a GIF that starts with one, and empty otherwise; no
  error is reported.
\<close>

theorem merge_empty_restarts:
  "merge e [] opt
     = Inr (if startWithClearCode opt \<and> m_isGif e
            then replicate (minCodeSize opt) False @ [True] else [], e)"
  by (simp add: merge_def)

text \<open>
  The counterexample to C8 as stated: for a GIF stream with the default settings and no
  restarts \<open>merge\<close> returns the three bits of the clear code.
\<close>

theorem merge_empty_restarts_counterexample:
  "merge (newLzwEncoder [0, 1] True) [] (defaultSettings 2)
     = Inr ([False, False, True], newLzwEncoder [0, 1] True)"
  by (simp add: merge_def defaultSettings_def newLzwEncoder_def num_unfolds)

subsection \<open>The size of the decoder's table\<close>

text \<open>
  Reading bits changes neither the flavour nor the decoded bytes; the initial table has
  \<open>2 ^ m + 2\<close> entries for a GIF and \<open>2 ^ m + 1\<close> for a .Z file, which is at most
  \<open>MaxToken M\<close> when \<open>m < M\<close>. An iteration of the loop either resets the table to its
  initial size, or leaves it, or appends one entry, and it appends only below \<open>MaxToken\<close>.
\<close>

lemma getLzwBits_frame:
  assumes "getLzwBits d n = Inr (t, d')"
  shows "m_isGif_dec d' = m_isGif_dec d \<and> m_bytes d' = m_bytes d"
  using assms
  by (auto simp: getLzwBits_def Let_def split: if_splits sum.splits prod.splits)

lemma length_initialLut:
  "length (initialLut isGif m) = 2 ^ m + (if isGif then 2 else 1)"
  by (simp add: initialLut_def clearCode_def)

lemma initialLut_fits:
  assumes "1 \<le> m" and "m < M"
  shows "length (initialLut isGif m) \<le> MaxToken M"
proof -
  from assms have "(2::nat) \<le> 2 ^ m"
    using power_increasing [of 1 m "2::nat"] by simp
  then have "(2::nat) ^ m + 2 \<le> 2 ^ (m + 1)" by simp
  also from assms have "\<dots> \<le> 2 ^ M"
    by (intro power_increasing) simp_all
  finally show ?thesis
    by (simp add: length_initialLut MaxToken_def)
qed

lemma resetDictionary_result:
  assumes "resetDictionary m s d cs = Inr s'"
  shows "m_isGif_dec (dec s') = m_isGif_dec d
         \<and> d_lut s' = take (clearCode m + (if m_isGif_dec d then 2 else 1)) (d_lut s)
         \<and> d_token s' \<le> clearCode m - 1"
proof (cases "m_isGif_dec d")
  case True
  with assms show ?thesis
    by (auto simp: resetDictionary_def Let_def split: sum.splits prod.splits if_splits
        dest: getLzwBits_frame)
next
  case False
  from assms False obtain d1 inp t d2 where
    d1: "(if m_numBitsOriginalLZW d mod 8 \<noteq> 0
          then (case getLzwBits d (8 - m_numBitsOriginalLZW d mod 8) of
                  Inl err \<Rightarrow> Inl err
                | Inr (unused, d') \<Rightarrow> Inr d')
          else Inr d) = Inr d1"
    and g: "getLzwBits (d1\<lparr>m_input := inp\<rparr>) (m + 1) = Inr (t, d2)"
    and s': "t \<le> clearCode m - 1" "dec s' = d2\<lparr>m_bytes := m_bytes d2 @ [of_nat t]\<rparr>"
      "d_lut s' = take (clearCode m + 1) (d_lut s)" "d_token s' = t"
    by (auto simp: resetDictionary_def Let_def split: sum.splits prod.splits if_splits)
  from d1 have "m_isGif_dec d1 = m_isGif_dec d"
    by (auto split: if_splits sum.splits prod.splits dest: getLzwBits_frame)
  with getLzwBits_frame [OF g] s' False show ?thesis by simp
qed

lemma newCode_result:
  assumes "newCode M s = Inr s'"
  shows "m_isGif_dec (dec s') = m_isGif_dec (dec s) \<and> d_token s' = d_token s
         \<and> d_token s \<le> length (d_lut s)
         \<and> (d_token s = length (d_lut s) \<longrightarrow> length (d_lut s) < MaxToken M)
         \<and> (if length (d_lut s) < MaxToken M
             then \<exists>r. d_lut s' = d_lut s @ [r] else d_lut s' = d_lut s)"
  using assms
  by (auto simp: newCode_def Let_def split: option.splits if_splits sum.splits prod.splits)


lemma decompress_body_cases:
  assumes "decompress_body m M s = Inr (brk, s')"
  obtains
    (nobits) "\<not> m_isGif_dec (dec s)" "brk" "dec s' = dec s" "d_lut s' = d_lut s"
      "d_token s' = d_token s"
  | (reset) cs t d' s1 where "getLzwBits (dec s) cs = Inr (t, d')" "t = clearCode m"
      "resetDictionary m s1 d' cs = Inr s'" "d_lut s1 = d_lut s" "\<not> brk"
  | (eos) cs t d' where "getLzwBits (dec s) cs = Inr (t, d')"
      "t = endOfStreamCode (m_isGif_dec (dec s)) m" "brk"
      "dec s' = d'" "d_lut s' = d_lut s" "d_token s' = t"
  | (code) cs t d' s1 where "getLzwBits (dec s) cs = Inr (t, d')" "t \<le> length (d_lut s)"
      "newCode M s1 = Inr s'" "d_lut s1 = d_lut s" "d_token s1 = t" "dec s1 = d'"
      "d_prevToken s1 = Some (d_token s)" "\<not> brk"
  using assms
  unfolding decompress_body_def Let_def
  by (auto split: if_splits sum.splits prod.splits)

lemma decompress_body_inv:
  assumes inv: "decoder_inv m M isGif s" and body: "decompress_body m M s = Inr (brk, s')"
  shows "decoder_inv m M isGif s'
         \<and> (length (d_lut s) < length (d_lut s') \<longrightarrow>
               length (d_lut s) < MaxToken M \<and> length (d_lut s') = length (d_lut s) + 1)"
  using body
proof (cases rule: decompress_body_cases)
  case nobits
  with inv show ?thesis by (auto simp: decoder_inv_def)
next
  case (reset cs t d' s1)
  from getLzwBits_frame [OF reset(1)] inv have g: "m_isGif_dec d' = isGif"
    by (simp add: decoder_inv_def)
  from resetDictionary_result [OF reset(3)] g reset(4)
  have r: "m_isGif_dec (dec s') = isGif"
    "d_lut s' = take (clearCode m + (if isGif then 2 else 1)) (d_lut s)"
    "d_token s' \<le> clearCode m - 1"
    by simp_all
  from inv have "length (initialLut isGif m) \<le> length (d_lut s)"
    "length (d_lut s) \<le> MaxToken M"
    by (simp_all add: decoder_inv_def)
  with r show ?thesis
    by (auto simp: decoder_inv_def length_initialLut clearCode_def min_def)
next
  case (eos cs t d')
  from getLzwBits_frame [OF eos(1)] inv have "m_isGif_dec d' = isGif" "m_isGif_dec (dec s) = isGif"
    by (simp_all add: decoder_inv_def)
  with eos inv show ?thesis
    by (simp add: decoder_inv_def)
next
  case (code cs t d' s1)
  from getLzwBits_frame [OF code(1)] inv have g: "m_isGif_dec d' = isGif"
    by (simp add: decoder_inv_def)
  from newCode_result [OF code(3)] code(4,5,6) g
  have n: "m_isGif_dec (dec s') = isGif" "d_token s' = t" "t \<le> length (d_lut s)"
    "t = length (d_lut s) \<longrightarrow> length (d_lut s) < MaxToken M"
    "if length (d_lut s) < MaxToken M then \<exists>r. d_lut s' = d_lut s @ [r] else d_lut s' = d_lut s"
    by (auto split: if_splits)
  from inv have i: "length (initialLut isGif m) \<le> length (d_lut s)"
    "length (d_lut s) \<le> MaxToken M"
    by (simp_all add: decoder_inv_def)
  show ?thesis
  proof (cases "length (d_lut s) < MaxToken M")
    case True
    with n(5) obtain r where "d_lut s' = d_lut s @ [r]" by auto
    with n i True show ?thesis by (auto simp: decoder_inv_def)
  next
    case False
    with n(5) have "d_lut s' = d_lut s" by simp
    with n i False show ?thesis by (auto simp: decoder_inv_def)
  qed
qed

lemma decompress_reaches_inv:
  assumes "decompress_reaches m M s0 s" and "decoder_inv m M isGif s0"
  shows "decoder_inv m M isGif s"
  using assms
proof (induction rule: decompress_reaches.induct)
  case (start s)
  then show ?case .
next
  case (step s s1 brk s2)
  from decompress_body_inv [OF step.IH [OF step.prems] step.hyps(3)] show ?case by simp
qed

lemma newCode_too_large:
  assumes "d_token s1 = length (d_lut s1)" and "MaxToken M \<le> length (d_lut s1)"
    and "d_prevToken s1 = Some p" and "p < length (d_lut s1)"
  shows "newCode M s1 = Inl (Thrown ''dictionary too large'')"
  using assms by (simp add: newCode_def Let_def)

text \<open>
  Claim C10. Let the minimum code size \<open>m\<close> be at least 1 and below the maximum code
  size \<open>M\<close>, and let the first token be an entry of the initial table (otherwise
  \<open>decompress\<close> throws before its loop). Then in every state \<open>s\<close> that the loop of
  \<open>decompress\<close> reaches, the table has at most \<open>MaxToken M = 2 ^ M\<close> entries; an
  iteration from \<open>s\<close> leaves a table within the bound, and when it makes the table longer,
  the table was strictly below the bound and grows by exactly one entry; and a token equal
  to the size of the table, met while the table is at the bound, makes \<open>newCode\<close> throw
  \<open>dictionary too large\<close>. For a GIF the bound is \<open>MaxToken 12 = 4096\<close>, one more than the
  cap \<open>m_maxDictionary = 4095\<close> of the encoder.
\<close>

theorem lut_never_exceeds_MaxToken:
  assumes "1 \<le> m" and "m < M"
    and "t0 < length (initialLut (m_isGif_dec d0) m)"
    and "decompress_reaches m M
           \<lparr>dec = d0, d_lut = initialLut (m_isGif_dec d0) m, d_codeSize = m + 1,
            d_prevToken = None, d_token = t0, d_numTokensBlock = 1\<rparr> s"
  shows "length (d_lut s) \<le> MaxToken M
         \<and> (\<forall>brk s'. decompress_body m M s = Inr (brk, s') \<longrightarrow>
               length (d_lut s') \<le> MaxToken M
               \<and> (length (d_lut s) < length (d_lut s') \<longrightarrow>
                     length (d_lut s) < MaxToken M
                     \<and> length (d_lut s') = length (d_lut s) + 1))
         \<and> (\<forall>s1. d_token s \<noteq> endOfStreamCode (m_isGif_dec d0) m
               \<and> d_lut s1 = d_lut s \<and> d_prevToken s1 = Some (d_token s)
               \<and> d_token s1 = length (d_lut s) \<and> MaxToken M \<le> length (d_lut s) \<longrightarrow>
               newCode M s1 = Inl (Thrown ''dictionary too large''))
         \<and> MaxToken 12 = 4096
         \<and> m_maxDictionary (newLzwEncoder data True) + 1 = MaxToken 12"
proof -
  let ?s0 = "\<lparr>dec = d0, d_lut = initialLut (m_isGif_dec d0) m, d_codeSize = m + 1,
            d_prevToken = None, d_token = t0, d_numTokensBlock = 1\<rparr>"
  have "decoder_inv m M (m_isGif_dec d0) ?s0"
    using assms(3) initialLut_fits [OF assms(1,2)] by (simp add: decoder_inv_def)
  from decompress_reaches_inv [OF assms(4) this]
  have inv: "decoder_inv m M (m_isGif_dec d0) s" .
  then have a: "length (d_lut s) \<le> MaxToken M" by (simp add: decoder_inv_def)
  have b: "length (d_lut s') \<le> MaxToken M
               \<and> (length (d_lut s) < length (d_lut s') \<longrightarrow>
                     length (d_lut s) < MaxToken M
                     \<and> length (d_lut s') = length (d_lut s) + 1)"
    if "decompress_body m M s = Inr (brk, s')" for brk s'
    using decompress_body_inv [OF inv that] by (simp add: decoder_inv_def)
  have c: "newCode M s1 = Inl (Thrown ''dictionary too large'')"
    if "d_token s \<noteq> endOfStreamCode (m_isGif_dec d0) m
               \<and> d_lut s1 = d_lut s \<and> d_prevToken s1 = Some (d_token s)
               \<and> d_token s1 = length (d_lut s) \<and> MaxToken M \<le> length (d_lut s)" for s1
  proof -
    from inv that have "d_token s < length (d_lut s1)" by (auto simp: decoder_inv_def)
    with that show ?thesis by (intro newCode_too_large [of s1 M "d_token s"]) simp_all
  qed
  have d: "MaxToken 12 = 4096 \<and> m_maxDictionary (newLzwEncoder data True) + 1 = MaxToken 12"
    by (simp add: MaxToken_def newLzwEncoder_def)
  from a b c d show ?thesis by blast
qed

text \<open>
  The theorem at a GIF stream with a minimum code size of 2 and, to have a small bound, a
  maximum code size of 3: after the first token 0 the loop reads the token 1 and appends
  the seventh entry of the table, which is below \<open>MaxToken 3 = 8\<close>.
\<close>

theorem lut_never_exceeds_MaxToken_witness:
  "(1::nat) \<le> 2 \<and> (2::nat) < 3 \<and> 0 < length (initialLut True 2)
   \<and> (\<exists>s. decompress_reaches 2 3 afterFirstToken s \<and> length (d_lut s) = 7
          \<and> length (d_lut s) \<le> MaxToken 3)"
proof -
  obtain s1 where body: "decompress_body 2 3 afterFirstToken = Inr (False, s1)"
    and len: "length (d_lut s1) = 7"
    by (simp add: afterFirstToken_def dec_simps num_unfolds)
  have "d_token afterFirstToken \<noteq> endOfStreamCode (m_isGif_dec (dec afterFirstToken)) 2"
    by (simp add: afterFirstToken_def dec_simps)
  from decompress_reaches.step [OF decompress_reaches.start this body]
  have reach: "decompress_reaches 2 3 afterFirstToken s1" .
  have t0: "0 < length (initialLut (m_isGif_dec (dec afterFirstToken)) 2)"
    by (simp add: afterFirstToken_def dec_simps)
  have eq: "afterFirstToken =
           \<lparr>dec = dec afterFirstToken, d_lut = initialLut (m_isGif_dec (dec afterFirstToken)) 2,
            d_codeSize = 2 + 1, d_prevToken = None, d_token = 0, d_numTokensBlock = 1\<rparr>"
    by (simp add: afterFirstToken_def)
  from lut_never_exceeds_MaxToken [of 2 3 0 "dec afterFirstToken" s1] t0 reach eq
  have "length (d_lut s1) \<le> MaxToken 3" by simp
  with reach len show ?thesis
    by (auto simp: initialLut_def clearCode_def)
qed

subsection \<open>The stream 0 1 0 1 0 1\<close>

text \<open>
  Claim C6, as amended. For the stream \<open>[0, 1, 0, 1, 0, 1]\<close> with a minimum code size
  of 2 and greedy parsing, encoded as one block, the encoder emits the tokens 0, 1, 6, 6
  (three bits each for the first three, four bits for the last) and then the
  end-of-stream code 5: the codes 4 and 5 are the clear code and the end-of-stream code,
  so that the first string of the dictionary, \<open>01\<close>, has the code 6, \<open>10\<close> has the code 7,
  and \<open>010\<close> has the code 8. With the clear code at the start, as the command line sets
  it, the same tokens follow the clear code 4. Decoding either stream, written as GIF
  sub-blocks, gives back \<open>[0, 1, 0, 1, 0, 1]\<close>.
\<close>

theorem scenario_0101:
  "(case merge (newLzwEncoder [0, 1, 0, 1, 0, 1] True) [6]
           ((defaultSettings 2)\<lparr>startWithClearCode := False\<rparr>) of
      Inl err \<Rightarrow> False
    | Inr (stream, e') \<Rightarrow>
        stream = add (add (add (add (add [] 0 3) 1 3) 6 3) 6 4) 5 4
        \<and> m_dictionary e' 0 1 = Some 6 \<and> m_dictionary e' 1 0 = Some 7
        \<and> m_dictionary e' 6 0 = Some 8
        \<and> map_sum id fst (merge (newLzwEncoder [0, 1, 0, 1, 0, 1] True) [6] (defaultSettings 2))
            = Inr (add [] 4 3 @ stream)
        \<and> map_option (map_sum id getBytes)
              (decompress (newBinaryInputBuffer (writeOptimizedGif stream @ [0x3B])) True 2 12)
            = Some (Inr [0, 1, 0, 1, 0, 1])
        \<and> map_option (map_sum id getBytes)
              (decompress (newBinaryInputBuffer (writeOptimizedGif (add [] 4 3 @ stream) @ [0x3B]))
                 True 2 12)
            = Some (Inr [0, 1, 0, 1, 0, 1]))"
  by (simp add: ex_simps enc_simps dec_simps num_unfolds)

text \<open>
  The third token of that stream (the bits 6, 7 and 8) is the code 6, not the code 4.
\<close>

theorem scenario_0101_counterexample:
  "map_sum id (\<lambda>(stream, e'). take 3 (drop 6 stream))
     (merge (newLzwEncoder [0, 1, 0, 1, 0, 1] True) [6]
        ((defaultSettings 2)\<lparr>startWithClearCode := False\<rparr>))
     = Inr (add [] 6 3)
   \<and> add [] 6 3 \<noteq> add [] 4 3"
  by (simp add: ex_simps enc_simps num_unfolds)

subsection \<open>Encoding and decoding again\<close>

lemma estimateCosts_unfold:
  "estimateCosts e opt smartGreedy n =
     (if n = 0 then Inr e
      else if alignment opt = 0 then Inl DivisionByZero
      else if (n - 1) mod alignment opt \<noteq> 0 then estimateCosts e opt smartGreedy (n - 1)
      else
        (case optimizePartial e (n - 1) 0 False True opt of
           Inl err \<Rightarrow> Inl err
         | Inr (unused, e') \<Rightarrow>
             (if smartGreedy \<and> \<not> greedy opt then
                (case optimizePartial e' (n - 1) 0 False True (opt\<lparr>greedy := True\<rparr>) of
                   Inl err \<Rightarrow> Inl err
                 | Inr (unused', e'') \<Rightarrow> estimateCosts e'' opt smartGreedy (n - 1))
              else estimateCosts e' opt smartGreedy (n - 1))))"
  by (cases n) (auto split: sum.splits)

text \<open>
  Claim C1 says that decoding what the encoder emits gives back the stream that was
  encoded. The code does not do so for the stream \<open>[0, 0, 1, 0, 2, 0, 3, 1, 1, 2, 1]\<close> of
  a GIF frame with a minimum code size of 2 and the settings of the command line. The
  passes of \<open>optimizePartial\<close> over every start position, then \<open>optimize\<close>, give one block
  of 48 bits: the clear code and three tokens of 3 bits, eight tokens of 4 bits, and the
  end-of-stream code written with \<open>getMinBits (m_dictSize - 1) = 4\<close> bits, because the last
  token of the stream adds no string to the encoder's dictionary. Written as a GIF
  sub-block these are the bytes \<open>6, 4, 2, 2, 19, 33, 81\<close> and the terminator \<open>0\<close>. The
  decoder has 16 entries in its table after the eleventh token, raises its code size to
  5, finds 4 bits left in the sub-block and the length 0 after it, and throws
  \<open>too few bits available in unlzw\<close> instead of returning the eleven bytes.
\<close>

theorem roundtrip_fails:
  "(case estimateCosts (newLzwEncoder [0, 0, 1, 0, 2, 0, 3, 1, 1, 2, 1] True)
           (defaultSettings 2) False 11 of
      Inl err \<Rightarrow> None
    | Inr e \<Rightarrow>
        (case optimize e (defaultSettings 2) of
           Inl err \<Rightarrow> None
         | Inr (stream, e') \<Rightarrow>
             Some (writeOptimizedGif stream,
                   map_option (map_sum id getBytes)
                     (decompress (newBinaryInputBuffer (writeOptimizedGif stream @ [0x3B]))
                        True 2 12))))
   = Some ([6, 4, 2, 2, 19, 33, 81, 0],
           Some (Inl (Thrown ''too few bits available in unlzw'')))"
  by (simp add: ex_simps enc_simps dec_simps num_unfolds optimize_def optimize_loop.simps
      estimateCosts_unfold [of _ _ _ "numeral n" for n])

end
